theory Spec2Isabelle
  imports Complex_Main "HOL-Library.Multiset" "HOL-Library.AList" "HOL-Library.Log_Nat"
begin

section \<open>Budget allocation across counties\<close>

text \<open>
  A shallow embedding of \<^verbatim>\<open>lib/helpers/allocation_methods.py\<close> and of the parts of
  \<^verbatim>\<open>lib/models\<close> it relies on. A Python \<^verbatim>\<open>float\<close> is the real number it denotes, and
  every floating-point operation is the exact operation followed by rounding to the
  nearest number with a 53-bit significand, ties going to the even significand (the
  binary64 format; its exponent range is not modelled, so overflow to infinity and
  underflow to subnormal numbers or zero are outside the model). Integers are \<open>int\<close>,
  a raised exception is the left injection of a sum.
\<close>

subsection \<open>Exceptions\<close>

datatype error =
    ValueError string
  | ZeroDivisionError
  | StorageError

subsection \<open>Floating-point arithmetic\<close>

text \<open>Rounding a real number to an integer, ties going to the even integer.\<close>

definition round_half_even :: "real \<Rightarrow> int" where
  "round_half_even y =
     (let f = \<lfloor>y\<rfloor>; d = y - of_int f
      in if d < 1 / 2 then f
         else if 1 / 2 < d then f + 1
         else if even f then f else f + 1)"

text \<open>
  \<open>fl_exp a\<close> is the binary exponent of a positive number: the integer \<open>e\<close> with
  \<open>2 powi e \<le> a < 2 powi (e + 1)\<close>. \<open>fl x\<close> is the floating-point number nearest to
  \<open>x\<close>: \<open>x\<close> is scaled so that its integer part has 53 bits, rounded to an integer,
  and scaled back. The result of a floating-point operation is \<open>fl\<close> of the exact
  result; the conversion of an integer to a float is \<open>fl\<close> of the integer.
\<close>

definition fl_exp :: "real \<Rightarrow> int" where
  "fl_exp a = (if 1 \<le> a then bitlen \<lfloor>a\<rfloor> - 1 else - bitlen (\<lceil>1 / a\<rceil> - 1))"

definition fl :: "real \<Rightarrow> real" where
  "fl x = (if x = 0 then 0
           else let u = 2 powi (fl_exp \<bar>x\<bar> - 52)
                in of_int (round_half_even (x / u)) * u)"

text \<open>
  \<^verbatim>\<open>round(x, 2)\<close> on a float: the exact value of \<open>x\<close> is rounded to the nearest
  hundredth, ties going to the even hundredth, and the float nearest to that decimal
  number is returned.
\<close>

definition round2 :: "real \<Rightarrow> real" where
  "round2 x = fl (of_int (round_half_even (x * 100)) / 100)"

text \<open>
  \<^verbatim>\<open>sum\<close> over floats: the items are added from the left, starting from the integer
  0, each addition rounded (the loop of CPython up to version 3.11; later versions carry
  a compensation term that can change the last bit of the result).
\<close>

definition py_sum :: "real list \<Rightarrow> real" where
  "py_sum xs = fold (\<lambda>x acc. fl (acc + x)) xs 0"

subsection \<open>The County model\<close>

record county =
  id_col :: int
  name :: string
  population :: int
  economic_output :: real
  project_score :: int

text \<open>The checks of the \<^verbatim>\<open>@validates\<close> methods of \<^verbatim>\<open>County\<close> on the numeric columns.\<close>

definition validate_population :: "int \<Rightarrow> error + int" where
  "validate_population p =
     (if p \<le> 0 then Inl (ValueError ''Population must be greater than 0'') else Inr p)"

definition validate_economic_output :: "real \<Rightarrow> error + real" where
  "validate_economic_output e =
     (if e < 0 then Inl (ValueError ''Economic output cannot be negative'') else Inr e)"

definition validate_project_score :: "int \<Rightarrow> error + int" where
  "validate_project_score s =
     (if s < 1 \<or> s > 10
      then Inl (ValueError ''Project score must be an integer between 1 and 10'')
      else Inr s)"

definition valid_county :: "county \<Rightarrow> bool" where
  "valid_county c \<longleftrightarrow>
     validate_population (population c) = Inr (population c) \<and>
     validate_economic_output (economic_output c) = Inr (economic_output c) \<and>
     validate_project_score (project_score c) = Inr (project_score c)"

definition gdp_per_capita :: "county \<Rightarrow> real" where
  "gdp_per_capita c =
     (if population c = 0 then 0
      else fl (economic_output c / fl (of_int (population c))))"

subsection \<open>Allocation records and the calculator\<close>

record allocation_rec =
  county_id :: int
  county_name :: string
  amount :: real
  percentage :: real
  gdp_field :: "real option"
  score_field :: "int option"
  method_field :: string

record calculator =
  budget_amount :: real
  counties :: "county list"

definition AllocationCalculator_init :: "real \<Rightarrow> county list \<Rightarrow> error + calculator" where
  "AllocationCalculator_init b cs =
     (if cs = [] then Inl (ValueError ''Cannot allocate budget to zero counties'')
      else if b \<le> 0 then Inl (ValueError ''Budget amount must be greater than zero'')
      else Inr \<lparr>budget_amount = b, counties = cs\<rparr>)"

text \<open>
  \<^verbatim>\<open>equal_allocation\<close>: the share is computed once (dividing by the number of counties),
  then one record is appended per county; the percentage divides by the budget amount.
\<close>

definition equal_record :: "real \<Rightarrow> real \<Rightarrow> county \<Rightarrow> allocation_rec" where
  "equal_record b share c =
     \<lparr>county_id = id_col c, county_name = name c,
      amount = round2 share,
      percentage = round2 (fl (fl (share / b) * 100)),
      gdp_field = None, score_field = None,
      method_field = ''equal''\<rparr>"

definition equal_allocation :: "calculator \<Rightarrow> error + allocation_rec list" where
  "equal_allocation calc =
     (if length (counties calc) = 0 then Inl ZeroDivisionError
      else let share = fl (budget_amount calc / fl (of_nat (length (counties calc))))
           in if budget_amount calc = 0 then Inl ZeroDivisionError
              else Inr (map (equal_record (budget_amount calc) share) (counties calc)))"

text \<open>
  \<^verbatim>\<open>gdp_per_capita_allocation\<close>. \<^verbatim>\<open>min\<close> and \<^verbatim>\<open>max\<close> of an empty sequence raise
  \<^verbatim>\<open>ValueError\<close> (the message is the interpreter's); the weights are summed from 0; the
  first record already divides by the weight sum and then by the budget amount; the
  list is sorted in place on the rounded amount with \<^verbatim>\<open>reverse=True\<close>, which is a
  stable descending sort.
\<close>

fun min_seq :: "real list \<Rightarrow> error + real" where
  "min_seq [] = Inl (ValueError ''min() arg is an empty sequence'')"
| "min_seq (x # xs) = Inr (fold min xs x)"

fun max_seq :: "real list \<Rightarrow> error + real" where
  "max_seq [] = Inl (ValueError ''max() arg is an empty sequence'')"
| "max_seq (x # xs) = Inr (fold max xs x)"

definition inverse_weight :: "real \<Rightarrow> real \<Rightarrow> county \<Rightarrow> real" where
  "inverse_weight max_gdp min_gdp c = fl (fl (max_gdp - gdp_per_capita c) + min_gdp)"

definition total_inverse_weight :: "real \<Rightarrow> real \<Rightarrow> county list \<Rightarrow> real" where
  "total_inverse_weight max_gdp min_gdp cs =
     fold (\<lambda>c acc. fl (acc + inverse_weight max_gdp min_gdp c)) cs 0"

definition gdp_record :: "real \<Rightarrow> real \<Rightarrow> real \<Rightarrow> real \<Rightarrow> county \<Rightarrow> allocation_rec" where
  "gdp_record b total_w max_gdp min_gdp c =
     (let allocation_amount = fl (fl (inverse_weight max_gdp min_gdp c / total_w) * b)
      in \<lparr>county_id = id_col c, county_name = name c,
          amount = round2 allocation_amount,
          percentage = round2 (fl (fl (allocation_amount / b) * 100)),
          gdp_field = Some (round2 (gdp_per_capita c)), score_field = None,
          method_field = ''gdp_per_capita''\<rparr>)"

definition sort_reverse :: "('a \<Rightarrow> 'k::{linorder,uminus}) \<Rightarrow> 'a list \<Rightarrow> 'a list" where
  "sort_reverse key xs = sort_key (\<lambda>x. - key x) xs"

definition gdp_per_capita_allocation :: "calculator \<Rightarrow> error + allocation_rec list" where
  "gdp_per_capita_allocation calc =
     (let gs = map gdp_per_capita (counties calc)
      in case min_seq gs of Inl e \<Rightarrow> Inl e | Inr min_gdp \<Rightarrow>
         case max_seq gs of Inl e \<Rightarrow> Inl e | Inr max_gdp \<Rightarrow>
         let total_w = total_inverse_weight max_gdp min_gdp (counties calc)
         in if total_w = 0 then Inl ZeroDivisionError
            else if budget_amount calc = 0 then Inl ZeroDivisionError
            else Inr (sort_reverse amount
                   (map (gdp_record (budget_amount calc) total_w max_gdp min_gdp)
                        (counties calc))))"

text \<open>
  \<^verbatim>\<open>project_based_allocation\<close>. A zero score total raises the \<^verbatim>\<open>ValueError\<close> written
  in the source; the sort key is the \<^verbatim>\<open>project_score\<close> entry of each record, which
  every record built here carries.
\<close>

definition project_record :: "real \<Rightarrow> int \<Rightarrow> county \<Rightarrow> allocation_rec" where
  "project_record b total_project_score c =
     (let allocation_amount =
            fl (fl (of_int (project_score c) / of_int total_project_score) * b)
      in \<lparr>county_id = id_col c, county_name = name c,
          amount = round2 allocation_amount,
          percentage = round2 (fl (fl (allocation_amount / b) * 100)),
          gdp_field = None, score_field = Some (project_score c),
          method_field = ''project_based''\<rparr>)"

definition score_key :: "allocation_rec \<Rightarrow> int" where
  "score_key a = (case score_field a of Some s \<Rightarrow> s | None \<Rightarrow> 0)"

definition project_based_allocation :: "calculator \<Rightarrow> error + allocation_rec list" where
  "project_based_allocation calc =
     (let total_project_score = sum_list (map project_score (counties calc))
      in if total_project_score = 0
         then Inl (ValueError ''Total project score cannot be zero'')
         else if budget_amount calc = 0 then Inl ZeroDivisionError
         else Inr (sort_reverse score_key
                (map (project_record (budget_amount calc) total_project_score)
                     (counties calc))))"

subsection \<open>Summary and comparison\<close>

record summary =
  s_method :: string
  total_budget :: real
  total_allocated :: real
  remaining :: real
  num_counties :: nat
  allocations :: "allocation_rec list"

definition dispatch :: "calculator \<Rightarrow> string \<Rightarrow> error + allocation_rec list" where
  "dispatch calc m =
     (if m = ''equal'' then equal_allocation calc
      else if m = ''gdp_per_capita'' then gdp_per_capita_allocation calc
      else if m = ''project_based'' then project_based_allocation calc
      else Inl (ValueError (''Unknown allocation method: '' @ m)))"

definition get_allocation_summary :: "calculator \<Rightarrow> string \<Rightarrow> error + summary" where
  "get_allocation_summary calc m =
     (case dispatch calc m of
        Inl e \<Rightarrow> Inl e
      | Inr allocs \<Rightarrow>
          let total_amt = py_sum (map amount allocs)
          in Inr \<lparr>s_method = m,
                  total_budget = budget_amount calc,
                  total_allocated = round2 total_amt,
                  remaining = round2 (fl (budget_amount calc - total_amt)),
                  num_counties = length (counties calc),
                  allocations = allocs\<rparr>)"

text \<open>
  \<^verbatim>\<open>compare_allocation_methods\<close>. The calculator is built first; each method's summary,
  or the exception it raised, is then stored under the method's name. The entry
  \<^verbatim>\<open>{'error': str(e)}\<close> is represented by the exception itself.
\<close>

datatype method_entry = Summary summary | Failed error

record comparison =
  cmp_budget_amount :: real
  cmp_num_counties :: nat
  methods :: "(string \<times> method_entry) list"

definition method_names :: "string list" where
  "method_names = [''equal'', ''gdp_per_capita'', ''project_based'']"

definition run_method :: "calculator \<Rightarrow> string \<Rightarrow> method_entry" where
  "run_method calc m =
     (case get_allocation_summary calc m of Inr s \<Rightarrow> Summary s | Inl e \<Rightarrow> Failed e)"

definition compare_allocation_methods :: "real \<Rightarrow> county list \<Rightarrow> error + comparison" where
  "compare_allocation_methods b cs =
     (case AllocationCalculator_init b cs of
        Inl e \<Rightarrow> Inl e
      | Inr calc \<Rightarrow>
          Inr \<lparr>cmp_budget_amount = b,
               cmp_num_counties = length cs,
               methods = fold (\<lambda>m acc. AList.update m (run_method calc m) acc)
                              method_names []\<rparr>)"

subsection \<open>The Budget and Allocation models\<close>

text \<open>
  A budget name is a Python \<^verbatim>\<open>str\<close>: a sequence of Unicode code points.
  \<^verbatim>\<open>str.strip()\<close> removes the leading and the trailing code points that are
  whitespace for \<^verbatim>\<open>str.isspace\<close>.
\<close>

type_synonym unicode = "nat list"

definition is_space :: "nat \<Rightarrow> bool" where
  "is_space n \<longleftrightarrow>
     (9 \<le> n \<and> n \<le> 13) \<or> (28 \<le> n \<and> n \<le> 32) \<or> n = 133 \<or> n = 160 \<or> n = 5760
     \<or> (8192 \<le> n \<and> n \<le> 8202) \<or> n = 8232 \<or> n = 8233 \<or> n = 8239 \<or> n = 8287
     \<or> n = 12288"

definition strip :: "unicode \<Rightarrow> unicode" where
  "strip s = rev (dropWhile is_space (rev (dropWhile is_space s)))"

definition Budget_validate_name :: "unicode \<Rightarrow> error + unicode" where
  "Budget_validate_name n =
     (if n = [] \<or> length (strip n) = 0 then Inl (ValueError ''Budget name cannot be empty'')
      else if length n > 200 then Inl (ValueError ''Budget name cannot exceed 200 characters'')
      else Inr (strip n))"

definition Budget_validate_total_amount :: "real \<Rightarrow> error + real" where
  "Budget_validate_total_amount t =
     (if t \<le> 0 then Inl (ValueError ''Total budget amount must be greater than 0'')
      else Inr t)"

definition Budget_validate_allocation_method :: "string \<Rightarrow> error + string" where
  "Budget_validate_allocation_method m =
     (if m \<notin> set [''equal'', ''gdp_per_capita'', ''project_based'']
      then Inl (ValueError
             ''Allocation method must be one of: equal, gdp_per_capita, project_based'')
      else Inr m)"

definition Allocation_validate_amount :: "real \<Rightarrow> error + real" where
  "Allocation_validate_amount a =
     (if a < 0 then Inl (ValueError ''Allocation amount cannot be negative'') else Inr a)"

text \<open>Objects before they are inserted (no primary key yet), and the stored rows.\<close>

record budget_obj =
  bo_name :: unicode
  bo_total_amount :: real
  bo_allocation_method :: string

record allocation_obj =
  ao_budget_id :: nat
  ao_county_id :: int
  ao_amount :: real

record budget_row =
  budget_pk :: nat
  budget_name :: unicode
  budget_total_amount :: real
  budget_allocation_method :: string

record allocation_row =
  allocation_pk :: nat
  allocation_budget_id :: nat
  allocation_county_id :: int
  allocation_amount :: real

text \<open>The constructor \<^verbatim>\<open>Budget(name=..., total_amount=..., allocation_method=...)\<close>
  runs the validators in the order of its keyword arguments.\<close>

definition Budget_new :: "unicode \<Rightarrow> real \<Rightarrow> string \<Rightarrow> error + budget_obj" where
  "Budget_new n t m =
     (case Budget_validate_name n of Inl e \<Rightarrow> Inl e | Inr n' \<Rightarrow>
      case Budget_validate_total_amount t of Inl e \<Rightarrow> Inl e | Inr t' \<Rightarrow>
      case Budget_validate_allocation_method m of Inl e \<Rightarrow> Inl e | Inr m' \<Rightarrow>
      Inr \<lparr>bo_name = n', bo_total_amount = t', bo_allocation_method = m'\<rparr>)"

definition Allocation_new :: "nat \<Rightarrow> int \<Rightarrow> real \<Rightarrow> error + allocation_obj" where
  "Allocation_new bid cid a =
     (case Allocation_validate_amount a of Inl e \<Rightarrow> Inl e
      | Inr a' \<Rightarrow> Inr \<lparr>ao_budget_id = bid, ao_county_id = cid, ao_amount = a'\<rparr>)"

subsection \<open>Storage and the session\<close>

text \<open>
  The store holds the two tables the orchestration writes. A session works on a copy of
  the store (its transaction): \<^verbatim>\<open>flush\<close> and \<^verbatim>\<open>commit\<close> send the pending inserts to
  the copy, \<^verbatim>\<open>commit\<close> then makes the copy the store, \<^verbatim>\<open>rollback\<close> drops the copy.
  Any statement sent to the store may fail; which ones do is given by a fault plan.
  Timestamps are left out.
\<close>

record database =
  budgets_table :: "budget_row list"
  allocations_table :: "allocation_row list"

record faults =
  budget_insert_fails :: bool
  allocation_insert_fails :: "nat \<Rightarrow> bool"
  commit_fails :: bool
  refresh_fails :: bool

definition next_pk :: "nat list \<Rightarrow> nat" where
  "next_pk ks = Suc (fold max ks 0)"

definition insert_budget :: "faults \<Rightarrow> database \<Rightarrow> budget_obj \<Rightarrow> error + (database \<times> budget_row)" where
  "insert_budget F tx b =
     (if budget_insert_fails F then Inl StorageError
      else let row = \<lparr>budget_pk = next_pk (map budget_pk (budgets_table tx)),
                       budget_name = bo_name b,
                       budget_total_amount = bo_total_amount b,
                       budget_allocation_method = bo_allocation_method b\<rparr>
           in Inr (tx\<lparr>budgets_table := budgets_table tx @ [row]\<rparr>, row))"

fun insert_allocations ::
  "faults \<Rightarrow> nat \<Rightarrow> database \<Rightarrow> allocation_obj list \<Rightarrow> error + (database \<times> allocation_row list)" where
  "insert_allocations F k tx [] = Inr (tx, [])"
| "insert_allocations F k tx (a # as) =
     (if allocation_insert_fails F k then Inl StorageError
      else let row = \<lparr>allocation_pk = next_pk (map allocation_pk (allocations_table tx)),
                       allocation_budget_id = ao_budget_id a,
                       allocation_county_id = ao_county_id a,
                       allocation_amount = ao_amount a\<rparr>
           in case insert_allocations F (Suc k)
                     (tx\<lparr>allocations_table := allocations_table tx @ [row]\<rparr>) as of
                Inl e \<Rightarrow> Inl e
              | Inr (tx', rows) \<Rightarrow> Inr (tx', row # rows))"

fun make_allocations :: "nat \<Rightarrow> allocation_rec list \<Rightarrow> error + allocation_obj list" where
  "make_allocations bid [] = Inr []"
| "make_allocations bid (d # ds) =
     (case Allocation_new bid (county_id d) (amount d) of
        Inl e \<Rightarrow> Inl e
      | Inr a \<Rightarrow> (case make_allocations bid ds of Inl e \<Rightarrow> Inl e | Inr as \<Rightarrow> Inr (a # as)))"

text \<open>
  \<^verbatim>\<open>create_budget_with_allocations\<close>. The result pairs the store after the call with
  what the caller gets. Every exception raised inside the \<^verbatim>\<open>try\<close> block reaches the
  handler, which rolls back and raises it again; an exception before \<^verbatim>\<open>commit\<close> has
  returned therefore leaves the store as it was.
\<close>

definition create_budget_with_allocations ::
  "faults \<Rightarrow> database \<Rightarrow> unicode \<Rightarrow> real \<Rightarrow> string \<Rightarrow> county list
     \<Rightarrow> database \<times> (error + budget_row \<times> allocation_row list)" where
  "create_budget_with_allocations F db n total_amount allocation_method cs =
     (case Budget_new n total_amount allocation_method of
        Inl e \<Rightarrow> (db, Inl e)
      | Inr budget \<Rightarrow>
     (case insert_budget F db budget of
        Inl e \<Rightarrow> (db, Inl e)
      | Inr (tx, brow) \<Rightarrow>
     (case AllocationCalculator_init total_amount cs of
        Inl e \<Rightarrow> (db, Inl e)
      | Inr calc \<Rightarrow>
     (case get_allocation_summary calc allocation_method of
        Inl e \<Rightarrow> (db, Inl e)
      | Inr allocation_summary \<Rightarrow>
     (case make_allocations (budget_pk brow) (allocations allocation_summary) of
        Inl e \<Rightarrow> (db, Inl e)
      | Inr allocation_objects \<Rightarrow>
     (case insert_allocations F 0 tx allocation_objects of
        Inl e \<Rightarrow> (db, Inl e)
      | Inr (tx', rows) \<Rightarrow>
          if commit_fails F then (db, Inl StorageError)
          else if refresh_fails F then (tx', Inl StorageError)
          else (tx', Inr (brow, rows))))))))"

subsection \<open>Sample data\<close>

definition county_a :: county where
  "county_a = \<lparr>id_col = 1, name = ''Alpha'', population = 1000,
                 economic_output = 1000000, project_score = 5\<rparr>"

definition county_b :: county where
  "county_b = \<lparr>id_col = 2, name = ''Beta'', population = 1000,
                 economic_output = 2000000, project_score = 5\<rparr>"

definition county_z :: county where
  "county_z = \<lparr>id_col = 3, name = ''Gamma'', population = 1000,
                 economic_output = 0, project_score = 7\<rparr>"

definition empty_db :: database where
  "empty_db = \<lparr>budgets_table = [], allocations_table = []\<rparr>"

definition no_faults :: faults where
  "no_faults = \<lparr>budget_insert_fails = False, allocation_insert_fails = (\<lambda>k. False),
                 commit_fails = False, refresh_fails = False\<rparr>"

definition second_insert_fails :: faults where
  "second_insert_fails = \<lparr>budget_insert_fails = False, allocation_insert_fails = (\<lambda>k. k = 1),
                 commit_fails = False, refresh_fails = False\<rparr>"



fun digits :: "nat \<Rightarrow> string" where
  "digits n = (if n < 10 then [''0123456789'' ! n]
               else digits (n div 10) @ [''0123456789'' ! (n mod 10)])"

definition numbered_county :: "nat \<Rightarrow> county" where
  "numbered_county i = \<lparr>id_col = int i, name = ''County '' @ digits i, population = 1000,
                         economic_output = 1000000, project_score = 5\<rparr>"

definition numbered_counties :: "nat \<Rightarrow> county list" where
  "numbered_counties n = map numbered_county [1..<Suc n]"

definition roads :: unicode where
  "roads = [82, 111, 97, 100, 115]"

definition refresh_fault :: faults where
  "refresh_fault = \<lparr>budget_insert_fails = False, allocation_insert_fails = (\<lambda>k. False),
                     commit_fails = False, refresh_fails = True\<rparr>"

section \<open>Properties\<close>

subsection \<open>Rounding to an integer\<close>

lemma round_half_even_cases:
  "round_half_even y = \<lfloor>y\<rfloor> \<or> round_half_even y = \<lfloor>y\<rfloor> + 1"
  by (simp add: round_half_even_def Let_def)

lemma round_half_even_err: "\<bar>of_int (round_half_even y) - y\<bar> \<le> 1 / 2"
proof -
  have "of_int \<lfloor>y\<rfloor> \<le> y" "y < of_int \<lfloor>y\<rfloor> + 1" by linarith+
  then show ?thesis
    by (auto simp: round_half_even_def Let_def)
qed

lemma round_half_even_of_int [simp]: "round_half_even (of_int k) = k"
  by (simp add: round_half_even_def)

lemma round_half_even_mono:
  assumes "x \<le> y" shows "round_half_even x \<le> round_half_even y"
proof (cases "\<lfloor>x\<rfloor> = \<lfloor>y\<rfloor>")
  case True
  with assms show ?thesis
    by (auto simp: round_half_even_def Let_def)
next
  case False
  with assms have "\<lfloor>x\<rfloor> < \<lfloor>y\<rfloor>" using floor_mono[OF assms] by linarith
  moreover have "round_half_even x \<le> \<lfloor>x\<rfloor> + 1" "\<lfloor>y\<rfloor> \<le> round_half_even y"
    using round_half_even_cases[of x] round_half_even_cases[of y] by linarith+
  ultimately show ?thesis by linarith
qed

lemma round_half_even_unique:
  assumes "\<bar>of_int k - y\<bar> < 1 / 2 \<or> (\<bar>of_int k - y\<bar> = 1 / 2 \<and> even k)"
  shows "round_half_even y = k"
proof -
  let ?f = "\<lfloor>y\<rfloor>"
  have fl: "of_int ?f \<le> y" "y < of_int ?f + 1" by linarith+
  from assms fl have "k = ?f \<or> k = ?f + 1" by (auto simp: abs_if split: if_splits) linarith+
  then show ?thesis
  proof
    assume k: "k = ?f"
    with assms fl show ?thesis
      by (auto simp: round_half_even_def Let_def abs_if split: if_splits)
  next
    assume k: "k = ?f + 1"
    with assms fl show ?thesis
      by (auto simp: round_half_even_def Let_def abs_if split: if_splits)
  qed
qed

lemma round_half_even_prop:
  "\<bar>of_int (round_half_even y) - y\<bar> < 1 / 2
   \<or> (\<bar>of_int (round_half_even y) - y\<bar> = 1 / 2 \<and> even (round_half_even y))"
proof -
  define f where "f = \<lfloor>y\<rfloor>"
  define d where "d = y - of_int f"
  have d: "0 \<le> d" "d < 1" unfolding d_def f_def by linarith+
  have y: "y = of_int f + d" by (simp add: d_def)
  have r: "round_half_even y = (if d < 1 / 2 then f
         else if 1 / 2 < d then f + 1 else if even f then f else f + 1)"
    by (simp add: round_half_even_def Let_def f_def d_def)
  define k where "k = round_half_even y"
  have k: "k = (if d < 1 / 2 then f
         else if 1 / 2 < d then f + 1 else if even f then f else f + 1)"
    unfolding k_def by (rule r)
  have "\<bar>of_int k - (of_int f + d)\<bar> < 1 / 2
      \<or> (\<bar>of_int k - (of_int f + d)\<bar> = 1 / 2 \<and> even k)"
    unfolding k using d by (auto simp: abs_if)
  then show ?thesis unfolding k_def y[symmetric] .
qed

lemma round_half_even_minus: "round_half_even (- y) = - round_half_even y"
proof (rule round_half_even_unique)
  from round_half_even_prop[of y]
  show "\<bar>of_int (- round_half_even y) - (- y)\<bar> < 1 / 2
      \<or> (\<bar>of_int (- round_half_even y) - (- y)\<bar> = 1 / 2 \<and> even (- round_half_even y))"
    by (auto simp: abs_if split: if_splits)
qed

subsection \<open>The binary exponent\<close>

lemma two_powi_pos [simp]: "0 < (2::real) powi e"
  by simp

lemma two_powi_mono: "e \<le> e' \<Longrightarrow> (2::real) powi e \<le> 2 powi e'"
  by (rule power_int_increasing) simp_all

lemma two_powi_strict_mono: "e < e' \<Longrightarrow> (2::real) powi e < 2 powi e'"
  by (rule power_int_strict_increasing) simp_all

lemma two_powi_Suc: "(2::real) powi (e + 1) = 2 * 2 powi e"
  by (simp add: power_int_add)

lemma fl_exp_bounds:
  assumes "0 < a"
  shows "2 powi (fl_exp a) \<le> a" and "a < 2 powi (fl_exp a + 1)"
proof -
  have "2 powi (fl_exp a) \<le> a \<and> a < 2 powi (fl_exp a + 1)"
  proof (cases "1 \<le> a")
    case True
    define n where "n = \<lfloor>a\<rfloor>"
    from True have n: "0 < n" unfolding n_def by linarith
    have na: "of_int n \<le> a" "a < of_int n + 1" unfolding n_def by linarith+
    define j where "j = nat (bitlen n - 1)"
    from n have bl: "1 \<le> bitlen n" by (simp add: bitlen_alt_def)
    then have e: "fl_exp a = int j" and bn: "nat (bitlen n) = Suc j"
      using True by (simp_all add: fl_exp_def n_def j_def)
    from bitlen_bounds[OF n] have b: "2 ^ j \<le> n" "n < 2 ^ Suc j"
      unfolding j_def bn[unfolded j_def] by simp_all
    from b(1) have "(2::real) ^ j \<le> of_int n"
      by (metis of_int_le_iff of_int_numeral of_int_power)
    with na(1) have lo: "(2::real) ^ j \<le> a" by linarith
    from b(2) have "n + 1 \<le> 2 ^ Suc j" by simp
    then have "real_of_int (n + 1) \<le> 2 ^ Suc j"
      by (metis of_int_le_iff of_int_numeral of_int_power)
    with na(2) have hi: "a < 2 ^ Suc j" by simp
    have "(2::real) powi (int j) = 2 ^ j" "(2::real) powi (int j + 1) = 2 ^ Suc j"
      by (simp_all add: power_int_add)
    with lo hi e show ?thesis by simp
  next
    case False
    with assms have a1: "a < 1" by simp
    define m where "m = \<lceil>1 / a\<rceil>"
    have y1: "1 < 1 / a" using assms a1 by simp
    have my: "1 / a \<le> of_int m" "of_int m - 1 < 1 / a" unfolding m_def by linarith+
    from y1 my(1) have "1 < real_of_int m" by linarith
    then have m: "0 < m - 1" by linarith
    define j where "j = nat (bitlen (m - 1) - 1)"
    from m have bl: "1 \<le> bitlen (m - 1)" by (simp add: bitlen_alt_def)
    then have e: "fl_exp a = - int (Suc j)" and bn: "nat (bitlen (m - 1)) = Suc j"
      using False by (simp_all add: fl_exp_def m_def j_def)
    from bitlen_bounds[OF m] have b: "2 ^ j \<le> m - 1" "m - 1 < 2 ^ Suc j"
      unfolding j_def bn[unfolded j_def] by simp_all
    from b(2) have "m \<le> 2 ^ Suc j" by simp
    then have "real_of_int m \<le> 2 ^ Suc j"
      by (metis of_int_le_iff of_int_numeral of_int_power)
    with my(1) have "1 / a \<le> 2 ^ Suc j" by linarith
    then have lo: "1 / 2 ^ Suc j \<le> a"
      using assms by (simp add: field_simps)
    from b(1) have "(2::real) ^ j \<le> of_int (m - 1)"
      by (metis of_int_le_iff of_int_numeral of_int_power)
    with my(2) have "2 ^ j < 1 / a" by simp
    then have hi: "a < 1 / 2 ^ j"
      using assms by (simp add: field_simps)
    have "(2::real) powi (- int (Suc j)) = inverse (2 powi int (Suc j))"
      by (rule power_int_minus)
    then have "(2::real) powi (- int (Suc j)) = 1 / 2 ^ Suc j"
      by (simp only: power_int_of_nat inverse_eq_divide)
    moreover have "(2::real) powi (- int j) = inverse (2 powi int j)"
      by (rule power_int_minus)
    then have "(2::real) powi (- int (Suc j) + 1) = 1 / 2 ^ j"
      by (simp add: inverse_eq_divide)
    ultimately show ?thesis using lo hi e by simp
  qed
  then show "2 powi (fl_exp a) \<le> a" and "a < 2 powi (fl_exp a + 1)" by simp_all
qed

lemma fl_exp_unique:
  assumes "2 powi e \<le> a" "a < 2 powi (e + 1)"
  shows "fl_exp a = e"
proof -
  have pos: "0 < a" using assms(1) two_powi_pos[of e] by linarith
  note b = fl_exp_bounds[OF pos]
  have "\<not> fl_exp a < e"
  proof
    assume "fl_exp a < e"
    then have "(2::real) powi (fl_exp a + 1) \<le> 2 powi e" by (intro two_powi_mono) simp
    with b(2) assms(1) show False by linarith
  qed
  moreover have "\<not> e < fl_exp a"
  proof
    assume "e < fl_exp a"
    then have "(2::real) powi (e + 1) \<le> 2 powi (fl_exp a)" by (intro two_powi_mono) simp
    with b(1) assms(2) show False by linarith
  qed
  ultimately show ?thesis by linarith
qed

lemma fl_exp_mono:
  assumes "0 < a" "a \<le> b"
  shows "fl_exp a \<le> fl_exp b"
proof (rule ccontr)
  assume "\<not> fl_exp a \<le> fl_exp b"
  then have "(2::real) powi (fl_exp b + 1) \<le> 2 powi (fl_exp a)" by (intro two_powi_mono) simp
  with fl_exp_bounds(1)[OF assms(1)] fl_exp_bounds(2)[of b] assms show False by linarith
qed

subsection \<open>Rounding to a float: sign, monotonicity, error, fixed points\<close>

lemma fl_0 [simp]: "fl 0 = 0"
  by (simp add: fl_def)

lemma fl_minus: "fl (- x) = - fl x"
  by (simp add: fl_def Let_def round_half_even_minus)

lemma fl_eqI:
  assumes "2 powi e \<le> \<bar>x\<bar>" "\<bar>x\<bar> < 2 powi (e + 1)"
  shows "fl x = of_int (round_half_even (x / 2 powi (e - 52))) * 2 powi (e - 52)"
proof -
  have "0 < \<bar>x\<bar>" using assms(1) two_powi_pos[of e] by linarith
  then have "x \<noteq> 0" by simp
  with fl_exp_unique[OF assms] show ?thesis by (simp add: fl_def Let_def)
qed

lemma fl_scaled:
  assumes "0 < x"
  defines "u \<equiv> 2 powi (fl_exp x - 52)"
  shows "fl x = of_int (round_half_even (x / u)) * u"
    and "2 ^ 52 \<le> round_half_even (x / u)"
    and "round_half_even (x / u) \<le> 2 ^ 53"
    and "2 ^ 52 \<le> x / u" and "x / u < 2 ^ 53"
proof -
  have u: "0 < u" by (simp add: u_def)
  note b = fl_exp_bounds[OF assms(1)]
  show "fl x = of_int (round_half_even (x / u)) * u"
    using assms(1) by (simp add: fl_def u_def Let_def)
  have "2 powi (fl_exp x) / u = 2 powi 52"
    unfolding u_def by (simp add: power_int_diff)
  then have e1: "2 powi (fl_exp x) / u = 2 ^ 52" by simp
  have "2 powi (fl_exp x + 1) / u = 2 powi 53"
    unfolding u_def by (simp add: power_int_diff power_int_add)
  then have e2: "2 powi (fl_exp x + 1) / u = 2 ^ 53" by simp
  from b(1) u have "2 powi (fl_exp x) / u \<le> x / u" by (simp add: divide_right_mono)
  with e1 show lo: "2 ^ 52 \<le> x / u" by simp
  from b(2) u have "x / u < 2 powi (fl_exp x + 1) / u" by (simp add: divide_strict_right_mono)
  with e2 show hi: "x / u < 2 ^ 53" by simp
  have "round_half_even (of_int (2 ^ 52)) \<le> round_half_even (x / u)"
    using lo by (intro round_half_even_mono) simp
  then show "2 ^ 52 \<le> round_half_even (x / u)" by (simp only: round_half_even_of_int)
  have "round_half_even (x / u) \<le> round_half_even (of_int (2 ^ 53))"
    using hi by (intro round_half_even_mono) simp
  then show "round_half_even (x / u) \<le> 2 ^ 53" by (simp only: round_half_even_of_int)
qed

lemma fl_pos_bounds:
  assumes "0 < x"
  shows "2 powi (fl_exp x) \<le> fl x" and "fl x \<le> 2 powi (fl_exp x + 1)"
proof -
  define u :: real where "u = 2 powi (fl_exp x - 52)"
  have u: "0 < u" by (simp add: u_def)
  note s = fl_scaled[OF assms, folded u_def]
  have p1: "2 powi (fl_exp x) = 2 ^ 52 * u"
    unfolding u_def using power_int_add[of "2::real" 52 "fl_exp x - 52"] by simp
  have p2: "2 powi (fl_exp x + 1) = 2 ^ 53 * u"
    unfolding two_powi_Suc p1 by simp
  from s(2) have "(2::real) ^ 52 \<le> of_int (round_half_even (x / u))"
    by (metis of_int_le_iff of_int_numeral of_int_power)
  then show "2 powi (fl_exp x) \<le> fl x"
    unfolding p1 s(1) using u by (simp add: mult_right_mono)
  from s(3) have "of_int (round_half_even (x / u)) \<le> (2::real) ^ 53"
    by (metis of_int_le_iff of_int_numeral of_int_power)
  then show "fl x \<le> 2 powi (fl_exp x + 1)"
    unfolding p2 s(1) using u by (simp add: mult_right_mono)
qed

lemma fl_pos: "0 < x \<Longrightarrow> 0 < fl x"
  using fl_pos_bounds(1)[of x] two_powi_pos[of "fl_exp x"] by linarith

lemma fl_nonneg: "0 \<le> x \<Longrightarrow> 0 \<le> fl x"
  using fl_pos[of x] by (cases "x = 0") (simp_all add: less_eq_real_def)

lemma fl_neg: "x < 0 \<Longrightarrow> fl x < 0"
  using fl_pos[of "- x"] by (simp add: fl_minus)

lemma fl_mono_pos:
  assumes "0 < x" "x \<le> y"
  shows "fl x \<le> fl y"
proof (cases "fl_exp x = fl_exp y")
  case True
  from assms have y: "0 < y" by simp
  define u :: real where "u = 2 powi (fl_exp x - 52)"
  have u: "0 < u" by (simp add: u_def)
  have "x / u \<le> y / u" using assms(2) u by (simp add: divide_right_mono)
  then have "round_half_even (x / u) \<le> round_half_even (y / u)" by (rule round_half_even_mono)
  then have "real_of_int (round_half_even (x / u)) * u \<le> of_int (round_half_even (y / u)) * u"
    using u by (simp add: mult_right_mono)
  then show ?thesis
    using fl_scaled(1)[OF assms(1)] fl_scaled(1)[OF y] True by (simp add: u_def)
next
  case False
  from assms have y: "0 < y" by simp
  from False fl_exp_mono[OF assms] have "fl_exp x + 1 \<le> fl_exp y" by simp
  then have "(2::real) powi (fl_exp x + 1) \<le> 2 powi (fl_exp y)" by (rule two_powi_mono)
  with fl_pos_bounds(2)[OF assms(1)] fl_pos_bounds(1)[OF y] show ?thesis by linarith
qed

lemma fl_mono:
  assumes "x \<le> y"
  shows "fl x \<le> fl y"
proof -
  consider "0 < x" | "x \<le> 0" "0 \<le> y" | "y < 0" by linarith
  then show ?thesis
  proof cases
    case 1
    from 1 assms show ?thesis by (rule fl_mono_pos)
  next
    case 2
    then have "fl x \<le> 0" using fl_nonneg[of "- x"] by (simp add: fl_minus)
    moreover from 2 have "0 \<le> fl y" by (simp add: fl_nonneg)
    ultimately show ?thesis by linarith
  next
    case 3
    with assms have "0 < - y" "- y \<le> - x" by simp_all
    from fl_mono_pos[OF this] show ?thesis by (simp add: fl_minus)
  qed
qed

lemma fl_err_pos:
  assumes "0 < x"
  shows "\<bar>fl x - x\<bar> \<le> x / 2 ^ 53"
proof -
  define u :: real where "u = 2 powi (fl_exp x - 52)"
  have u: "0 < u" by (simp add: u_def)
  note s = fl_scaled[OF assms, folded u_def]
  have "fl x - x = (of_int (round_half_even (x / u)) - x / u) * u"
    unfolding s(1) using u by (simp add: left_diff_distrib)
  then have "\<bar>fl x - x\<bar> = \<bar>of_int (round_half_even (x / u)) - x / u\<bar> * u"
    using u by (simp add: abs_mult)
  also have "\<dots> \<le> 1 / 2 * u"
    using round_half_even_err[of "x / u"] u by (intro mult_right_mono) simp_all
  also have "\<dots> \<le> x / 2 ^ 53"
  proof -
    from s(4) u have "2 ^ 52 * u \<le> x" by (simp add: field_simps)
    then show ?thesis by simp
  qed
  finally show ?thesis .
qed

lemma fl_err: "\<bar>fl x - x\<bar> \<le> \<bar>x\<bar> / 2 ^ 53"
proof -
  consider "0 < x" | "x = 0" | "x < 0" by linarith
  then show ?thesis
  proof cases
    case 1
    with fl_err_pos[of x] show ?thesis by simp
  next
    case 2
    then show ?thesis by simp
  next
    case 3
    with fl_err_pos[of "- x"] show ?thesis by (simp add: fl_minus abs_if split: if_splits)
  qed
qed

lemma fl_representable:
  assumes "2 powi e \<le> \<bar>x\<bar>" "\<bar>x\<bar> < 2 powi (e + 1)"
    and "x / 2 powi (e - 52) = of_int k"
  shows "fl x = x"
proof -
  have "fl x = of_int (round_half_even (of_int k)) * 2 powi (e - 52)"
    using fl_eqI[OF assms(1,2)] assms(3) by simp
  also have "\<dots> = x / 2 powi (e - 52) * 2 powi (e - 52)"
    using assms(3) by simp
  also have "\<dots> = x" by simp
  finally show ?thesis .
qed

lemma fl_idem_pos:
  assumes "0 < x"
  shows "fl (fl x) = fl x"
proof -
  define e where "e = fl_exp x"
  define u :: real where "u = 2 powi (e - 52)"
  define K where "K = round_half_even (x / u)"
  have u: "0 < u" by (simp add: u_def)
  note s = fl_scaled[OF assms, folded e_def, folded u_def, folded K_def]
  have flx: "fl x = of_int K * u" by (rule s(1))
  have pe: "2 powi e = 2 ^ 52 * u"
    unfolding u_def using power_int_add[of "2::real" 52 "e - 52"] by simp
  have pos: "0 < fl x" using assms by (rule fl_pos)
  show ?thesis
  proof (cases "K = 2 ^ 53")
    case True
    then have v: "fl x = 2 ^ 53 * u" unfolding flx by simp
    then have v': "fl x = 2 powi (e + 1)" unfolding two_powi_Suc pe by simp
    have "fl x / 2 powi (e + 1 - 52) = of_int (2 ^ 52)"
      unfolding v using u by (simp add: u_def power_int_diff power_int_add)
    moreover have "2 powi (e + 1) \<le> \<bar>fl x\<bar>" using v' by simp
    moreover have "\<bar>fl x\<bar> < 2 powi (e + 1 + 1)"
      using v' two_powi_strict_mono[of "e + 1" "e + 1 + 1"] by simp
    ultimately show ?thesis by (intro fl_representable[where e = "e + 1"]) 
  next
    case False
    with s(3) have "K < 2 ^ 53" by simp
    then have "K + 1 \<le> 2 ^ 53" by simp
    then have "real_of_int (K + 1) \<le> 2 ^ 53"
      by (metis of_int_le_iff of_int_numeral of_int_power)
    then have "real_of_int K * u < 2 ^ 53 * u" using u by simp
    then have hi: "\<bar>fl x\<bar> < 2 powi (e + 1)"
      unfolding two_powi_Suc pe using pos flx by simp
    have lo: "2 powi e \<le> \<bar>fl x\<bar>"
      using fl_pos_bounds(1)[OF assms] pos by (simp add: e_def)
    have "fl x / 2 powi (e - 52) = of_int K"
      unfolding flx u_def by simp
    with lo hi show ?thesis by (intro fl_representable[where e = e])
  qed
qed

lemma fl_idem [simp]: "fl (fl x) = fl x"
proof -
  consider "0 < x" | "x = 0" | "x < 0" by linarith
  then show ?thesis
  proof cases
    case 1
    then show ?thesis by (rule fl_idem_pos)
  next
    case 2
    then show ?thesis by simp
  next
    case 3
    then have "fl (fl (- x)) = fl (- x)" by (intro fl_idem_pos) simp
    then show ?thesis by (simp add: fl_minus)
  qed
qed

text \<open>
  Evaluation at a concrete value: the value is scaled by a power of two into the range of
  the significand.
\<close>

lemma fl_eval:
  assumes "2 ^ 52 \<le> \<bar>x\<bar> * 2 ^ k" "\<bar>x\<bar> * 2 ^ k < 2 ^ 53"
  shows "fl x = of_int (round_half_even (x * 2 ^ k)) / 2 ^ k"
proof -
  have m: "(2::real) powi (- int k) = 1 / 2 ^ k"
    using power_int_minus[of "2::real" "int k"] by (simp add: inverse_eq_divide)
  have p: "(2::real) powi (52 - int k) = 2 ^ 52 / 2 ^ k"
    using power_int_diff[of "2::real" 52 "int k"] by simp
  have q: "(2::real) powi (52 - int k + 1) = 2 ^ 53 / 2 ^ k"
    using power_int_diff[of "2::real" 53 "int k"] by (simp add: algebra_simps)
  have lo: "2 powi (52 - int k) \<le> \<bar>x\<bar>"
    unfolding p using assms(1) by (simp add: field_simps)
  have hi: "\<bar>x\<bar> < 2 powi (52 - int k + 1)"
    unfolding q using assms(2) by (simp add: field_simps)
  from fl_eqI[OF lo hi] show ?thesis by (simp add: m)
qed

lemma fl_eval_exact:
  assumes "2 ^ 52 \<le> \<bar>x\<bar> * 2 ^ k" "\<bar>x\<bar> * 2 ^ k < 2 ^ 53" "x * 2 ^ k = of_int n"
  shows "fl x = x"
proof -
  have "fl x = of_int n / 2 ^ k" using fl_eval[OF assms(1,2)] assms(3) by simp
  also have "\<dots> = x" using assms(3)[symmetric] by simp
  finally show ?thesis .
qed

lemma fl_of_int_pos:
  assumes "0 < k" "k \<le> 2 ^ 53"
  shows "fl (of_int k) = of_int k"
proof (cases "k = 2 ^ 53")
  case True
  have "fl (2 ^ 53) = (2::real) ^ 53"
    by (rule fl_representable[where e = 53 and k = "2 ^ 52"]) simp_all
  with True show ?thesis by simp
next
  case False
  with assms have lt: "k < 2 ^ 53" by simp
  define e where "e = fl_exp (of_int k)"
  have kp: "0 < real_of_int k" using assms by simp
  note b = fl_exp_bounds[OF kp, folded e_def]
  from lt have "real_of_int k < 2 ^ 53"
    by (metis of_int_less_iff of_int_numeral of_int_power)
  with b(1) have "(2::real) powi e < 2 powi 53" by simp
  then have e52: "e \<le> 52"
    using two_powi_mono[of 53 e] by (cases "53 \<le> e") simp_all
  define j where "j = nat (52 - e)"
  have ej: "e - 52 = - int j" using e52 by (simp add: j_def)
  have "(2::real) powi (- int j) = inverse (2 powi int j)" by (rule power_int_minus)
  then have "real_of_int k / 2 powi (e - 52) = of_int (k * 2 ^ j)"
    unfolding ej by (simp add: inverse_eq_divide)
  with b show ?thesis
    using kp by (intro fl_representable[where e = e and k = "k * 2 ^ j"]) simp_all
qed

lemma fl_of_int: "\<bar>k\<bar> \<le> 2 ^ 53 \<Longrightarrow> fl (of_int k) = of_int k"
proof -
  assume a: "\<bar>k\<bar> \<le> 2 ^ 53"
  consider "0 < k" | "k = 0" | "k < 0" by linarith
  then show ?thesis
  proof cases
    case 1
    with a show ?thesis by (intro fl_of_int_pos) simp_all
  next
    case 2
    then show ?thesis by simp
  next
    case 3
    with a have "fl (of_int (- k)) = of_int (- k)" by (intro fl_of_int_pos) simp_all
    then show ?thesis by (simp add: fl_minus)
  qed
qed

lemma fl_of_nat:
  assumes "n \<le> 2 ^ 53"
  shows "fl (of_nat n) = of_nat n"
proof -
  from assms have "int n \<le> int (2 ^ 53)" by (simp only: of_nat_le_iff)
  then have "\<bar>int n\<bar> \<le> 2 ^ 53" by simp
  from fl_of_int[OF this] show ?thesis by simp
qed

lemma fl_numeral: "(numeral n :: int) \<le> 2 ^ 53 \<Longrightarrow> fl (numeral n) = numeral n"
  using fl_of_int[of "numeral n"] by simp

lemma fl_1 [simp]: "fl 1 = 1"
  using fl_of_int[of 1] by simp

subsection \<open>Rounding to two decimals\<close>

lemma round2_mono: "x \<le> y \<Longrightarrow> round2 x \<le> round2 y"
  unfolding round2_def
  by (intro fl_mono divide_right_mono) (simp_all add: round_half_even_mono)

lemma round2_0 [simp]: "round2 0 = 0"
  using round_half_even_of_int[of 0] by (simp add: round2_def)

lemma round2_nonneg: "0 \<le> x \<Longrightarrow> 0 \<le> round2 x"
  using round2_mono[of 0 x] by simp

lemma round2_err: "\<bar>round2 x - x\<bar> \<le> 1 / 200 + (\<bar>x\<bar> + 1 / 200) / 2 ^ 53"
proof -
  define h :: real where "h = of_int (round_half_even (x * 100)) / 100"
  have hx: "\<bar>h - x\<bar> \<le> 1 / 200"
    using round_half_even_err[of "x * 100"] by (simp add: h_def field_simps abs_le_iff)
  then have "\<bar>h\<bar> \<le> \<bar>x\<bar> + 1 / 200" by linarith
  then have "\<bar>h\<bar> / 2 ^ 53 \<le> (\<bar>x\<bar> + 1 / 200) / 2 ^ 53" by (simp add: divide_right_mono)
  with fl_err[of h] have "\<bar>fl h - h\<bar> \<le> (\<bar>x\<bar> + 1 / 200) / 2 ^ 53" by linarith
  with hx have "\<bar>fl h - x\<bar> \<le> 1 / 200 + (\<bar>x\<bar> + 1 / 200) / 2 ^ 53" by linarith
  then show ?thesis by (simp add: round2_def h_def)
qed

subsection \<open>Accumulated relative errors\<close>

text \<open>
  Relative errors are counted in units of \<open>1 / 2 ^ 53\<close>; a rounded operation adds two
  units (one for the rounding, one for the slack of the bound).
\<close>

lemma rel_fl:
  assumes "0 \<le> t" "\<bar>x - t\<bar> \<le> k * t / 2 ^ 53" "0 \<le> k" "k \<le> 2 ^ 53"
  shows "\<bar>fl x - t\<bar> \<le> (k + 2) * t / 2 ^ 53"
proof -
  have "k * t / 2 ^ 53 \<le> 2 ^ 53 * t / 2 ^ 53"
    using assms(1,4) by (intro divide_right_mono mult_right_mono) simp_all
  then have "k * t / 2 ^ 53 \<le> t" by simp
  with assms(2) have "\<bar>x\<bar> \<le> 2 * t" by linarith
  then have "\<bar>x\<bar> / 2 ^ 53 \<le> 2 * t / 2 ^ 53" by (simp add: divide_right_mono)
  with fl_err[of x] have "\<bar>fl x - x\<bar> \<le> 2 * t / 2 ^ 53" by linarith
  with assms(2) have "\<bar>fl x - t\<bar> \<le> k * t / 2 ^ 53 + 2 * t / 2 ^ 53" by linarith
  then show ?thesis by (simp add: algebra_simps add_divide_distrib)
qed

lemma rel_fl0: "0 \<le> t \<Longrightarrow> \<bar>fl t - t\<bar> \<le> 2 * t / 2 ^ 53"
  using rel_fl[of t t 0] by simp

lemma rel_mult:
  fixes x t k c :: real
  assumes "\<bar>x - t\<bar> \<le> k * t / 2 ^ 53" "0 \<le> c"
  shows "\<bar>x * c - t * c\<bar> \<le> k * (t * c) / 2 ^ 53"
proof -
  have "x * c - t * c = (x - t) * c" by (simp add: left_diff_distrib)
  then have "\<bar>x * c - t * c\<bar> = \<bar>x - t\<bar> * c"
    using assms(2) by (simp add: abs_mult)
  also have "\<dots> \<le> k * t / 2 ^ 53 * c"
    using assms by (intro mult_right_mono)
  finally show ?thesis by (simp add: algebra_simps)
qed

lemma rel_divide:
  fixes x t k c :: real
  assumes "\<bar>x - t\<bar> \<le> k * t / 2 ^ 53" "0 < c"
  shows "\<bar>x / c - t / c\<bar> \<le> k * (t / c) / 2 ^ 53"
  using rel_mult[OF assms(1), of "1 / c"] assms(2) by simp

lemma rel_recip:
  fixes x t k b :: real
  assumes t: "0 < t" and x: "\<bar>x - t\<bar> \<le> k * t / 2 ^ 53" and k: "0 \<le> k" "k \<le> 2 ^ 52"
    and b: "0 \<le> b"
  shows "\<bar>b / x - b / t\<bar> \<le> (2 * k) * (b / t) / 2 ^ 53"
proof -
  have "k * t / 2 ^ 53 \<le> 2 ^ 52 * t / 2 ^ 53"
    using t k by (intro divide_right_mono mult_right_mono) simp_all
  then have half: "k * t / 2 ^ 53 \<le> t / 2" by simp
  with x have xl: "t / 2 \<le> x" by linarith
  with t have xp: "0 < x" by linarith
  have "b / x - b / t = b * (t - x) / (x * t)"
    using xp t by (simp add: field_simps)
  then have "\<bar>b / x - b / t\<bar> = b * \<bar>x - t\<bar> / (x * t)"
    using xp t b by (simp add: abs_mult abs_minus_commute)
  also have "\<dots> \<le> b * (k * t / 2 ^ 53) / (x * t)"
    using x b xp t by (intro divide_right_mono mult_left_mono) simp_all
  also have "\<dots> = (b * k / 2 ^ 53) / x"
    using t by simp
  also have "\<dots> \<le> (b * k / 2 ^ 53) / (t / 2)"
    using xl t b k by (intro divide_left_mono) simp_all
  also have "\<dots> = (2 * k) * (b / t) / 2 ^ 53"
    using t by simp
  finally show ?thesis .
qed

lemma round2_close:
  assumes "0 \<le> t" "\<bar>y - t\<bar> \<le> k * t / 2 ^ 53" "0 \<le> k" "k \<le> 2 ^ 53"
  shows "\<bar>round2 y - t\<bar> \<le> 1 / 200 + ((k + 2) * t + 1 / 200) / 2 ^ 53"
proof -
  have "k * t / 2 ^ 53 \<le> 2 ^ 53 * t / 2 ^ 53"
    using assms(1,4) by (intro divide_right_mono mult_right_mono) simp_all
  then have "k * t / 2 ^ 53 \<le> t" by simp
  with assms(2) have "\<bar>y\<bar> \<le> 2 * t" by linarith
  then have "(\<bar>y\<bar> + 1 / 200) / 2 ^ 53 \<le> (2 * t + 1 / 200) / 2 ^ 53"
    by (simp add: divide_right_mono)
  with round2_err[of y] have "\<bar>round2 y - y\<bar> \<le> 1 / 200 + (2 * t + 1 / 200) / 2 ^ 53"
    by linarith
  with assms(2) have "\<bar>round2 y - t\<bar>
      \<le> 1 / 200 + (2 * t + 1 / 200) / 2 ^ 53 + k * t / 2 ^ 53" by linarith
  then show ?thesis by (simp add: algebra_simps add_divide_distrib)
qed

lemma sum_list_err:
  fixes f g :: "'a \<Rightarrow> real"
  assumes "\<forall>x\<in>set xs. \<bar>f x - g x\<bar> \<le> c + d * g x"
  shows "\<bar>sum_list (map f xs) - sum_list (map g xs)\<bar>
           \<le> c * of_nat (length xs) + d * sum_list (map g xs)"
  using assms
proof (induction xs)
  case Nil
  then show ?case by simp
next
  case (Cons x xs)
  let ?F = "sum_list (map f xs)" and ?G = "sum_list (map g xs)"
  from Cons.prems have e: "\<bar>f x - g x\<bar> \<le> c + d * g x" by simp
  from Cons have ih: "\<bar>?F - ?G\<bar> \<le> c * of_nat (length xs) + d * ?G" by simp
  have "\<bar>(f x + ?F) - (g x + ?G)\<bar> \<le> \<bar>f x - g x\<bar> + \<bar>?F - ?G\<bar>" by linarith
  also have "\<dots> \<le> (c + d * g x) + (c * of_nat (length xs) + d * ?G)"
    using e ih by linarith
  finally show ?case by (simp add: algebra_simps)
qed

lemma widen_tolerance:
  fixes b :: real
  assumes "0 \<le> b" "k \<le> 8"
  shows "of_nat n / 200 + (k * b + of_nat n / 200) / 2 ^ 53
           \<le> of_nat n / 200 + (b + of_nat n) / 2 ^ 50"
proof -
  have "k * b \<le> 8 * b" using assms by (intro mult_right_mono) simp_all
  moreover have "real n / 200 \<le> 8 * real n" by simp
  ultimately have "k * b + real n / 200 \<le> 8 * b + 8 * real n" by linarith
  then have "k * b + real n / 200 \<le> 8 * (b + real n)" by (simp add: distrib_left)
  then have "(k * b + real n / 200) / 2 ^ 53 \<le> 8 * (b + real n) / 2 ^ 53"
    by (intro divide_right_mono) simp_all
  then show ?thesis by simp
qed

subsection \<open>Construction of the calculator\<close>

lemma init_Inr:
  "AllocationCalculator_init b cs = Inr calc \<longleftrightarrow>
     cs \<noteq> [] \<and> 0 < b \<and> calc = \<lparr>budget_amount = b, counties = cs\<rparr>"
  by (auto simp: AllocationCalculator_init_def)

text \<open>
  C6. Constructing an \<^verbatim>\<open>AllocationCalculator\<close> raises (a \<^verbatim>\<open>ValueError\<close>, the
  InvalidInput condition) exactly when the county list is empty or the budget amount is
  not strictly positive; in every other case it returns the calculator holding the two
  arguments.
\<close>

theorem init_fails_iff:
  "((\<exists>msg. AllocationCalculator_init b cs = Inl (ValueError msg)) \<longleftrightarrow> cs = [] \<or> b \<le> 0)
   \<and> ((\<exists>calc. AllocationCalculator_init b cs = Inr calc) \<longleftrightarrow> \<not> (cs = [] \<or> b \<le> 0))
   \<and> ((\<exists>e. AllocationCalculator_init b cs = Inl e) \<longleftrightarrow> cs = [] \<or> b \<le> 0)"
  by (auto simp: AllocationCalculator_init_def)

theorem init_fails_iff_witness:
  "(\<exists>msg. AllocationCalculator_init 0 [county_a] = Inl (ValueError msg))
   \<and> (\<exists>msg. AllocationCalculator_init 5 [] = Inl (ValueError msg))
   \<and> (\<exists>calc. AllocationCalculator_init 5 [county_a] = Inr calc)"
  using init_fails_iff[of 0 "[county_a]"] init_fails_iff[of 5 "[]"]
    init_fails_iff[of 5 "[county_a]"]
  by simp

subsection \<open>Stable descending sort; sums\<close>

lemma mset_sort_reverse [simp]: "mset (sort_reverse k xs) = mset xs"
  by (simp add: sort_reverse_def)

lemma set_sort_reverse [simp]: "set (sort_reverse k xs) = set xs"
  by (simp add: sort_reverse_def)

lemma length_sort_reverse [simp]: "length (sort_reverse k xs) = length xs"
  by (simp add: sort_reverse_def)

lemma sort_reverse_descending:
  fixes k :: "'a \<Rightarrow> 'k::linordered_ab_group_add"
  shows "sorted_wrt (\<lambda>x y. k y \<le> k x) (sort_reverse k xs)"
proof -
  have "sorted (map (\<lambda>x. - k x) (sort_reverse k xs))"
    unfolding sort_reverse_def by (rule sorted_sort_key)
  then show ?thesis by (simp add: sorted_map)
qed

lemma sort_reverse_stable:
  fixes k :: "'a \<Rightarrow> 'k::linordered_ab_group_add"
  shows "filter (\<lambda>y. k y = v) (sort_reverse k xs) = filter (\<lambda>y. k y = v) xs"
  using sort_key_stable[of "\<lambda>x. - k x" "- v" xs] by (simp add: sort_reverse_def)

lemma sum_list_perm:
  fixes f :: "'a \<Rightarrow> real"
  assumes "mset xs = mset ys"
  shows "sum_list (map f xs) = sum_list (map f ys)"
proof -
  have "sum_mset (mset (map f xs)) = sum_mset (mset (map f ys))"
    using assms by (metis mset_map)
  then show ?thesis by (simp only: sum_mset_sum_list)
qed

lemma sum_list_sort_reverse [simp]:
  fixes f :: "'a \<Rightarrow> real"
  shows "sum_list (map f (sort_reverse k xs)) = sum_list (map f xs)"
  by (rule sum_list_perm) simp

lemma sum_list_scaled:
  fixes f :: "'a \<Rightarrow> real"
  shows "sum_list (map (\<lambda>c. f c / s * b) cs) = sum_list (map f cs) / s * b"
  by (induction cs) (simp_all add: add_divide_distrib distrib_right)

lemma of_int_sum_list_map:
  "(of_int (sum_list (map f cs)) :: real) = sum_list (map (\<lambda>c. of_int (f c)) cs)"
  by (induction cs) simp_all

lemma map_const_replicate: "map (\<lambda>x. c) xs = replicate (length xs) c"
  by (induction xs) simp_all

subsection \<open>Values of the sample data\<close>

lemma sample_valid:
  "valid_county county_a" "valid_county county_b" "valid_county county_z"
  by (simp_all add: valid_county_def validate_population_def validate_economic_output_def
      validate_project_score_def county_a_def county_b_def county_z_def)

lemma sample_gdp:
  "gdp_per_capita county_a = 1000" "gdp_per_capita county_b = 2000" "gdp_per_capita county_z = 0"
proof -
  have "fl 1000 = 1000" "fl 2000 = 2000" by (simp_all add: fl_numeral)
  then show "gdp_per_capita county_a = 1000" "gdp_per_capita county_b = 2000"
    "gdp_per_capita county_z = 0"
    by (simp_all add: gdp_per_capita_def county_a_def county_b_def county_z_def)
qed

lemma sample_fl:
  "fl 2 = 2" "fl 50 = 50" "fl 500000 = 500000" "fl (1 / 2) = 1 / 2"
proof -
  show "fl 2 = 2" "fl 50 = 50" "fl 500000 = 500000" by (simp_all add: fl_numeral)
  show "fl (1 / 2) = 1 / 2"
    by (subst fl_eval[where k = 53]) (simp_all add: round_half_even_def)
qed

lemma sample_round2: "round2 500000 = 500000" "round2 50 = 50"
  by (simp_all add: round2_def round_half_even_def sample_fl)

lemma length_numbered_counties [simp]: "length (numbered_counties n) = n"
  by (simp add: numbered_counties_def)

lemma numbered_counties_ne: "0 < n \<Longrightarrow> numbered_counties n \<noteq> []"
  by (simp add: numbered_counties_def)

subsection \<open>Equal allocation\<close>

lemma equal_allocation_Inr:
  assumes "cs \<noteq> []" "b \<noteq> 0"
  shows "equal_allocation \<lparr>budget_amount = b, counties = cs\<rparr>
      = Inr (map (equal_record b (fl (b / fl (of_nat (length cs))))) cs)"
  using assms by (simp add: equal_allocation_def)

lemma equal_amounts:
  assumes "cs \<noteq> []" "b \<noteq> 0"
  shows "map_sum id (map amount) (equal_allocation \<lparr>budget_amount = b, counties = cs\<rparr>)
      = Inr (replicate (length cs) (round2 (fl (b / fl (of_nat (length cs))))))"
  using assms
  by (simp add: equal_allocation_Inr equal_record_def comp_def map_const_replicate)

lemma equal_percentages:
  assumes "cs \<noteq> []" "b \<noteq> 0"
  shows "map_sum id (map percentage) (equal_allocation \<lparr>budget_amount = b, counties = cs\<rparr>)
      = Inr (replicate (length cs)
              (round2 (fl (fl (fl (b / fl (of_nat (length cs))) / b) * 100))))"
  using assms
  by (simp add: equal_allocation_Inr equal_record_def comp_def map_const_replicate)

lemma equal_share_close:
  fixes b :: real
  assumes b: "0 < b" and n: "0 < n"
  defines "N \<equiv> real n"
  shows "\<bar>fl (b / fl N) - b / N\<bar> \<le> 6 * (b / N) / 2 ^ 53"
proof -
  have N: "0 < N" using n by (simp add: N_def)
  have t: "0 \<le> b / N" using b N by simp
  have "\<bar>fl N - N\<bar> \<le> 2 * N / 2 ^ 53" using N by (intro rel_fl0) simp
  from rel_recip[OF N this, of b] b
  have "\<bar>b / fl N - b / N\<bar> \<le> 4 * (b / N) / 2 ^ 53" by simp
  from rel_fl[OF t this] show ?thesis by simp
qed

lemma equal_amount_close:
  fixes b :: real
  assumes b: "0 < b" and n: "0 < n"
  shows "\<bar>round2 (fl (b / fl (real n))) - b / real n\<bar>
           \<le> (1 / 200 + 1 / 200 / 2 ^ 53) + 8 / 2 ^ 53 * (b / real n)"
proof -
  have t: "0 \<le> b / real n" using b n by simp
  from round2_close[OF t equal_share_close[OF b n]]
  have "\<bar>round2 (fl (b / fl (real n))) - b / real n\<bar>
      \<le> 1 / 200 + ((6 + 2) * (b / real n) + 1 / 200) / 2 ^ 53" by simp
  then show ?thesis by (simp add: add_divide_distrib algebra_simps)
qed

lemma equal_percentage_close:
  fixes b :: real
  assumes b: "0 < b" and n: "0 < n"
  shows "\<bar>round2 (fl (fl (fl (b / fl (real n)) / b) * 100)) - 100 / real n\<bar>
           \<le> 1 / 200 + 1 / 2 ^ 42"
proof -
  let ?N = "real n"
  have N: "1 \<le> ?N" using n by simp
  have r: "0 \<le> 1 / ?N" by simp
  have "\<bar>fl (b / fl ?N) / b - b / ?N / b\<bar> \<le> 6 * (b / ?N / b) / 2 ^ 53"
    using rel_divide[OF equal_share_close[OF b n] b] .
  moreover have "b / ?N / b = 1 / ?N" using b by simp
  ultimately have "\<bar>fl (b / fl ?N) / b - 1 / ?N\<bar> \<le> 6 * (1 / ?N) / 2 ^ 53" by simp
  from rel_fl[OF r this] have "\<bar>fl (fl (b / fl ?N) / b) - 1 / ?N\<bar> \<le> 8 * (1 / ?N) / 2 ^ 53"
    by simp
  from rel_mult[OF this, of 100]
  have "\<bar>fl (fl (b / fl ?N) / b) * 100 - 100 / ?N\<bar> \<le> 8 * (100 / ?N) / 2 ^ 53" by simp
  moreover have t: "0 \<le> 100 / ?N" by simp
  ultimately have "\<bar>fl (fl (fl (b / fl ?N) / b) * 100) - 100 / ?N\<bar> \<le> (8 + 2) * (100 / ?N) / 2 ^ 53"
    by (intro rel_fl) simp_all
  from round2_close[OF t this]
  have e: "\<bar>round2 (fl (fl (fl (b / fl ?N) / b) * 100)) - 100 / ?N\<bar>
      \<le> 1 / 200 + ((8 + 2 + 2) * (100 / ?N) + 1 / 200) / 2 ^ 53" by simp
  have "100 / ?N \<le> 100" using N by (simp add: field_simps)
  then have "((8 + 2 + 2) * (100 / ?N) + 1 / 200) / 2 ^ 53 \<le> (12 * 100 + 1 / 200) / (2 ^ 53 :: real)"
    by (intro divide_right_mono) simp_all
  also have "\<dots> \<le> 1 / 2 ^ 42" by simp
  finally show ?thesis using e by linarith
qed

text \<open>
  C4 (as amended). For a calculator built from a positive budget amount \<open>b\<close> and a
  non-empty county list of size N, \<^verbatim>\<open>equal_allocation\<close> returns one record per county,
  in input order, all with the same amount and the same percentage. The amount is the
  floating-point quotient \<open>b / N\<close> rounded to two decimals; it lies within half a cent,
  up to the floating-point error \<open>(b / N + 1) / 2 ^ 50\<close>, of the exact quotient. The
  percentage is the floating-point value of \<open>(b / N) / b * 100\<close> rounded to two
  decimals; it lies within 0.005, up to \<open>1 / 2 ^ 42\<close>, of \<open>100 / N\<close>. The amounts sum to
  the budget amount up to half a cent per county and the floating-point error
  \<open>(b + N) / 2 ^ 50\<close>.
\<close>

theorem equal_allocation_shares:
  assumes init: "AllocationCalculator_init b cs = Inr calc"
  shows "\<exists>A P allocs.
        equal_allocation calc = Inr allocs
      \<and> allocs = map (\<lambda>c. \<lparr>county_id = id_col c, county_name = name c,
                          amount = A, percentage = P,
                          gdp_field = None, score_field = None,
                          method_field = ''equal''\<rparr>) cs
      \<and> A = round2 (fl (b / fl (of_nat (length cs))))
      \<and> P = round2 (fl (fl (fl (b / fl (of_nat (length cs))) / b) * 100))
      \<and> \<bar>A - b / of_nat (length cs)\<bar> \<le> 1 / 200 + (b / of_nat (length cs) + 1) / 2 ^ 50
      \<and> \<bar>P - 100 / of_nat (length cs)\<bar> \<le> 1 / 200 + 1 / 2 ^ 42
      \<and> \<bar>sum_list (map amount allocs) - b\<bar>
            \<le> of_nat (length cs) / 200 + (b + of_nat (length cs)) / 2 ^ 50"
proof -
  from init have ne: "cs \<noteq> []" and pos: "0 < b"
    and calc: "calc = \<lparr>budget_amount = b, counties = cs\<rparr>"
    by (simp_all add: init_Inr)
  let ?n = "length cs"
  let ?N = "real ?n"
  have n: "0 < ?n" using ne by simp
  have N: "1 \<le> ?N" using ne by (cases cs) simp_all
  define A where "A = round2 (fl (b / fl ?N))"
  define P where "P = round2 (fl (fl (fl (b / fl ?N) / b) * 100))"
  let ?rec = "\<lambda>c. \<lparr>county_id = id_col c, county_name = name c, amount = A, percentage = P,
      gdp_field = None, score_field = None, method_field = ''equal''\<rparr>"
  have rec: "equal_record b (fl (b / fl ?N)) = ?rec"
    by (intro ext) (simp add: equal_record_def A_def P_def)
  have run: "equal_allocation calc = Inr (map ?rec cs)"
    using ne pos by (simp add: calc equal_allocation_Inr rec)
  note ac = equal_amount_close[OF pos n, folded A_def]
  have "1 / 200 / 2 ^ 53 + 8 / 2 ^ 53 * (b / ?N) \<le> (b / ?N + 1) / 2 ^ 50"
  proof -
    have "0 \<le> b / ?N" using pos by simp
    then have "1 / 200 + 8 * (b / ?N) \<le> 8 * (b / ?N + 1)" by simp
    then have "(1 / 200 + 8 * (b / ?N)) / 2 ^ 53 \<le> 8 * (b / ?N + 1) / 2 ^ 53"
      by (intro divide_right_mono) simp_all
    then show ?thesis by (simp add: add_divide_distrib)
  qed
  with ac have a1: "\<bar>A - b / ?N\<bar> \<le> 1 / 200 + (b / ?N + 1) / 2 ^ 50" by linarith
  have p1: "\<bar>P - 100 / ?N\<bar> \<le> 1 / 200 + 1 / 2 ^ 42"
    unfolding P_def by (rule equal_percentage_close[OF pos n])
  have each: "\<forall>c\<in>set cs. \<bar>(\<lambda>_. A) c - (\<lambda>_. b / ?N) c\<bar>
      \<le> (1 / 200 + 1 / 200 / 2 ^ 53) + 8 / 2 ^ 53 * (\<lambda>_. b / ?N) c"
    using ac by simp
  have gsum: "sum_list (map (\<lambda>_. b / ?N) cs) = b"
    using ne by (simp add: sum_list_triv)
  from sum_list_err[OF each] have
    "\<bar>sum_list (map (\<lambda>_. A) cs) - b\<bar> \<le> (1 / 200 + 1 / 200 / 2 ^ 53) * ?N + 8 / 2 ^ 53 * b"
    unfolding gsum .
  also have "\<dots> = ?N / 200 + (8 * b + ?N / 200) / 2 ^ 53"
    by (simp add: algebra_simps add_divide_distrib)
  also have "\<dots> \<le> ?N / 200 + (b + ?N) / 2 ^ 50"
    using pos by (intro widen_tolerance) simp_all
  finally have "\<bar>sum_list (map (\<lambda>_. A) cs) - b\<bar> \<le> ?N / 200 + (b + ?N) / 2 ^ 50" .
  moreover have "map amount (map ?rec cs) = map (\<lambda>_. A) cs" by (simp add: comp_def)
  ultimately have s1: "\<bar>sum_list (map amount (map ?rec cs)) - b\<bar> \<le> ?N / 200 + (b + ?N) / 2 ^ 50"
    by (simp only:)
  show ?thesis
    using run a1 p1 s1 A_def P_def
    by (intro exI[of _ A] exI[of _ P] exI[of _ "map ?rec cs"]) simp
qed

lemma sample_equal_allocation:
  "equal_allocation \<lparr>budget_amount = 1000000, counties = [county_a, county_b]\<rparr>
     = Inr [\<lparr>county_id = 1, county_name = ''Alpha'', amount = 500000, percentage = 50,
              gdp_field = None, score_field = None, method_field = ''equal''\<rparr>,
            \<lparr>county_id = 2, county_name = ''Beta'', amount = 500000, percentage = 50,
              gdp_field = None, score_field = None, method_field = ''equal''\<rparr>]"
  by (simp add: equal_allocation_def equal_record_def sample_fl sample_round2
      county_a_def county_b_def)

theorem equal_allocation_shares_witness:
  "AllocationCalculator_init 1000000 [county_a, county_b]
     = Inr \<lparr>budget_amount = 1000000, counties = [county_a, county_b]\<rparr>
   \<and> equal_allocation \<lparr>budget_amount = 1000000, counties = [county_a, county_b]\<rparr>
     = Inr [\<lparr>county_id = 1, county_name = ''Alpha'', amount = 500000, percentage = 50,
              gdp_field = None, score_field = None, method_field = ''equal''\<rparr>,
            \<lparr>county_id = 2, county_name = ''Beta'', amount = 500000, percentage = 50,
              gdp_field = None, score_field = None, method_field = ''equal''\<rparr>]
   \<and> \<bar>500000 - 1000000 / of_nat (length [county_a, county_b])\<bar>
        \<le> (1 / 200 + (1000000 / of_nat (length [county_a, county_b]) + 1) / 2 ^ 50 :: real)"
proof -
  have h: "AllocationCalculator_init 1000000 [county_a, county_b]
     = Inr \<lparr>budget_amount = 1000000, counties = [county_a, county_b]\<rparr>"
    by (simp add: AllocationCalculator_init_def)
  from equal_allocation_shares[OF h] obtain A P allocs where
    e: "equal_allocation \<lparr>budget_amount = 1000000, counties = [county_a, county_b]\<rparr> = Inr allocs"
    and a: "allocs = map (\<lambda>c. \<lparr>county_id = id_col c, county_name = name c,
                          amount = A, percentage = P,
                          gdp_field = None, score_field = None,
                          method_field = ''equal''\<rparr>) [county_a, county_b]"
    and c: "\<bar>A - 1000000 / of_nat (length [county_a, county_b])\<bar>
        \<le> 1 / 200 + (1000000 / of_nat (length [county_a, county_b]) + 1) / 2 ^ 50"
    by blast
  from e a have "A = 500000" by (simp add: sample_equal_allocation)
  with c h show ?thesis by (simp only: sample_equal_allocation)
qed

text \<open>
  The rounded operations of the next example, evaluated one by one.
\<close>

lemma c4_e1: "fl (40) = 40"
  by (subst fl_eval[where k = 47]) (simp_all add: round_half_even_def)

lemma c4_e2: "fl (1234567 / 40) = 8483879823553331 / 274877906944"
  by (subst fl_eval[where k = 38]) (simp_all add: round_half_even_def)

lemma c4_e3: "fl (3086417 / 100) = 2120969612290949 / 68719476736"
  by (subst fl_eval[where k = 38]) (simp_all add: round_half_even_def)

lemma c4_e4: "fl (8483879823553331 / 339355192942133248) = 7205759403792793 / 288230376151711744"
  by (subst fl_eval[where k = 58]) (simp_all add: round_half_even_def)

lemma c4_e5: "fl (180143985094819825 / 72057594037927936) = 5 / 2"
  by (subst fl_eval[where k = 51]) (simp_all add: round_half_even_def)

lemma c4_e6: "fl (5 / 2) = 5 / 2"
  by (subst fl_eval[where k = 51]) (simp_all add: round_half_even_def)

lemma c4_e7: "fl (4000) = 4000"
  by (subst fl_eval[where k = 41]) (simp_all add: round_half_even_def)

lemma c4_e8: "fl (1 / 4000) = 1152921504606847 / 4611686018427387904"
  by (subst fl_eval[where k = 64]) (simp_all add: round_half_even_def)

lemma c4_e9: "fl (1152921504606847 / 4611686018427387904) = 1152921504606847 / 4611686018427387904"
  by (subst fl_eval[where k = 64]) (simp_all add: round_half_even_def)

lemma c4_e10: "fl (28823037615171175 / 1152921504606846976) = 3602879701896397 / 144115188075855872"
  by (subst fl_eval[where k = 58]) (simp_all add: round_half_even_def)

lemma c4_e11: "fl (3 / 100) = 1080863910568919 / 36028797018963968"
  by (subst fl_eval[where k = 58]) (simp_all add: round_half_even_def)

lemma c4_e12: "fl (71 / 4000) = 5116089176692883 / 288230376151711744"
  by (subst fl_eval[where k = 58]) (simp_all add: round_half_even_def)

lemma c4_e13: "fl (1 / 50) = 5764607523034235 / 288230376151711744"
  by (subst fl_eval[where k = 58]) (simp_all add: round_half_even_def)

lemma c4_e14: "fl (5116089176692883 / 20464356706771533824) = 4611686018427387 / 18446744073709551616"
  by (subst fl_eval[where k = 64]) (simp_all add: round_half_even_def)

lemma c4_e15: "fl (115292150460684675 / 4611686018427387904) = 900719925474099 / 36028797018963968"
  by (subst fl_eval[where k = 58]) (simp_all add: round_half_even_def)

lemmas c4_evals = c4_e1 c4_e2 c4_e3 c4_e4 c4_e5 c4_e6 c4_e7 c4_e8 c4_e9 c4_e10 c4_e11 c4_e12
  c4_e13 c4_e14 c4_e15

text \<open>
  C4 as stated fails. With a budget amount of 1234567 and 40 counties the exact quotient
  is 30864.175, which rounds to 30864.18, but the floating-point quotient lies just below
  it and every amount is the float nearest to 30864.17. With 4000 counties the exact
  \<open>100 / N\<close> is 0.025, and the percentage is the float nearest to 0.03 for a budget
  amount of 1 and the float nearest to 0.02 for a budget amount of 71: it is not a
  function of N alone.
\<close>

theorem equal_share_counterexample:
  "AllocationCalculator_init 1234567 (numbered_counties 40)
     = Inr \<lparr>budget_amount = 1234567, counties = numbered_counties 40\<rparr>
   \<and> map_sum id (map amount)
        (equal_allocation \<lparr>budget_amount = 1234567, counties = numbered_counties 40\<rparr>)
       = Inr (replicate 40 (2120969612290949 / 68719476736))
   \<and> \<bar>2120969612290949 / 68719476736 - 3086417 / 100\<bar> < (1 / 10 ^ 9 :: real)
   \<and> round_half_even (1234567 / 40 * 100) = 3086418
   \<and> map_sum id (map percentage)
        (equal_allocation \<lparr>budget_amount = 1, counties = numbered_counties 4000\<rparr>)
       = Inr (replicate 4000 (1080863910568919 / 36028797018963968))
   \<and> map_sum id (map percentage)
        (equal_allocation \<lparr>budget_amount = 71, counties = numbered_counties 4000\<rparr>)
       = Inr (replicate 4000 (5764607523034235 / 288230376151711744))
   \<and> \<bar>1080863910568919 / 36028797018963968 - 3 / 100\<bar> < (1 / 10 ^ 9 :: real)
   \<and> \<bar>5764607523034235 / 288230376151711744 - 2 / 100\<bar> < (1 / 10 ^ 9 :: real)"
proof -
  have i: "AllocationCalculator_init 1234567 (numbered_counties 40)
     = Inr \<lparr>budget_amount = 1234567, counties = numbered_counties 40\<rparr>"
    by (simp add: AllocationCalculator_init_def numbered_counties_ne)
  have a: "round2 (fl (1234567 / fl 40)) = 2120969612290949 / 68719476736"
    by (simp add: c4_evals round2_def round_half_even_def)
  have p1: "round2 (fl (fl (1 / fl 4000) * 100))
      = 1080863910568919 / 36028797018963968"
    by (simp add: c4_evals round2_def round_half_even_def)
  have p71: "round2 (fl (fl (fl (71 / fl 4000) / 71) * 100))
      = 5764607523034235 / 288230376151711744"
    by (simp add: c4_evals round2_def round_half_even_def)
  have r: "round_half_even (1234567 / 40 * 100) = 3086418"
    by (simp add: round_half_even_def)
  have A: "map_sum id (map amount)
        (equal_allocation \<lparr>budget_amount = 1234567, counties = numbered_counties 40\<rparr>)
       = Inr (replicate 40 (2120969612290949 / 68719476736))"
    using equal_amounts[of "numbered_counties 40" 1234567]
    by (simp only: numbered_counties_ne length_numbered_counties) (simp add: a)
  have P1: "map_sum id (map percentage)
        (equal_allocation \<lparr>budget_amount = 1, counties = numbered_counties 4000\<rparr>)
       = Inr (replicate 4000 (1080863910568919 / 36028797018963968))"
    using equal_percentages[of "numbered_counties 4000" 1]
    by (simp only: numbered_counties_ne length_numbered_counties) (simp add: p1)
  have P71: "map_sum id (map percentage)
        (equal_allocation \<lparr>budget_amount = 71, counties = numbered_counties 4000\<rparr>)
       = Inr (replicate 4000 (5764607523034235 / 288230376151711744))"
    using equal_percentages[of "numbered_counties 4000" 71]
    by (simp only: numbered_counties_ne length_numbered_counties) (simp add: p71)
  have d: "\<bar>2120969612290949 / 68719476736 - 3086417 / 100\<bar> < (1 / 10 ^ 9 :: real)"
    "\<bar>1080863910568919 / 36028797018963968 - 3 / 100\<bar> < (1 / 10 ^ 9 :: real)"
    "\<bar>5764607523034235 / 288230376151711744 - 2 / 100\<bar> < (1 / 10 ^ 9 :: real)"
    by simp_all
  from i A r P1 P71 d show ?thesis by (intro conjI)
qed

subsection \<open>Project-score allocation\<close>

lemma score_key_project_record [simp]:
  "score_key (project_record b s c) = project_score c"
  by (simp add: score_key_def project_record_def Let_def)

lemma amount_project_record [simp]:
  "amount (project_record b s c) = round2 (fl (fl (of_int (project_score c) / of_int s) * b))"
  by (simp add: project_record_def Let_def)

lemma scores_sum_ge_length:
  "\<forall>c\<in>set cs. 1 \<le> project_score c \<Longrightarrow> int (length cs) \<le> sum_list (map project_score cs)"
  by (induction cs) auto

lemma scores_sum_pos:
  assumes "cs \<noteq> []" "\<forall>c\<in>set cs. 1 \<le> project_score c"
  shows "0 < sum_list (map project_score cs)"
proof -
  from assms(1) have "0 < int (length cs)" by simp
  with scores_sum_ge_length[OF assms(2)] show ?thesis by linarith
qed

lemma project_amount_close:
  assumes "0 < b" "0 < S" "0 \<le> s"
  shows "\<bar>round2 (fl (fl (of_int s / of_int S) * b)) - of_int s / of_int S * b\<bar>
           \<le> (1 / 200 + 1 / 200 / 2 ^ 53) + 6 / 2 ^ 53 * (of_int s / of_int S * b)"
proof -
  let ?q = "real_of_int s / of_int S"
  have q: "0 \<le> ?q" using assms by simp
  have t: "0 \<le> ?q * b" using q assms(1) by (intro mult_nonneg_nonneg) simp_all
  have "\<bar>fl ?q * b - ?q * b\<bar> \<le> 2 * (?q * b) / 2 ^ 53"
    using rel_mult[OF rel_fl0[OF q], of b] assms(1) by simp
  from rel_fl[OF t this] have "\<bar>fl (fl ?q * b) - ?q * b\<bar> \<le> (2 + 2) * (?q * b) / 2 ^ 53"
    by simp
  from round2_close[OF t this] have
    "\<bar>round2 (fl (fl ?q * b)) - ?q * b\<bar> \<le> 1 / 200 + ((2 + 2 + 2) * (?q * b) + 1 / 200) / 2 ^ 53"
    by simp
  then show ?thesis by (simp add: add_divide_distrib algebra_simps)
qed


text \<open>
  C3. For a calculator built from a positive budget amount \<open>b\<close> and a non-empty list of
  N counties whose project scores are all valid (1 to 10),
  \<^verbatim>\<open>project_based_allocation\<close> returns a rearrangement of the per-county records in
  which a record with a higher score never has a smaller amount than one with a lower
  score; the amounts sum to the budget amount within the rounding tolerance, which is
  half a cent per county plus the floating-point error \<open>(b + N) / 2 ^ 50\<close> (so within
  one cent per county when \<open>b + N \<le> 2 ^ 40\<close>); the records are in descending order of
  score, and records with the same score keep their input order.
\<close>

theorem project_based_allocation_spec:
  assumes init: "AllocationCalculator_init b cs = Inr calc"
    and scores: "\<forall>c\<in>set cs. validate_project_score (project_score c) = Inr (project_score c)"
  shows "\<exists>allocs. project_based_allocation calc = Inr allocs
      \<and> mset allocs = mset (map (project_record b (sum_list (map project_score cs))) cs)
      \<and> (\<forall>x\<in>set allocs. \<forall>y\<in>set allocs. score_key x \<le> score_key y \<longrightarrow> amount x \<le> amount y)
      \<and> \<bar>sum_list (map amount allocs) - b\<bar>
            \<le> of_nat (length cs) / 200 + (b + of_nat (length cs)) / 2 ^ 50
      \<and> (b + of_nat (length cs) \<le> 2 ^ 40 \<longrightarrow>
            \<bar>sum_list (map amount allocs) - b\<bar> \<le> of_nat (length cs) / 100)
      \<and> sorted_wrt (\<lambda>x y. score_key y \<le> score_key x) allocs
      \<and> (\<forall>v. filter (\<lambda>a. score_key a = v) allocs
              = filter (\<lambda>a. score_key a = v)
                  (map (project_record b (sum_list (map project_score cs))) cs))"
proof -
  from init have ne: "cs \<noteq> []" and pos: "0 < b"
    and calc: "calc = \<lparr>budget_amount = b, counties = cs\<rparr>"
    by (simp_all add: init_Inr)
  let ?S = "sum_list (map project_score cs)"
  let ?recs = "map (project_record b ?S) cs"
  let ?res = "sort_reverse score_key ?recs"
  let ?t = "\<lambda>c. real_of_int (project_score c) / of_int ?S * b"
  let ?n = "real (length cs)"
  from scores have s1: "\<forall>c\<in>set cs. 1 \<le> project_score c"
    by (auto simp: validate_project_score_def split: if_splits)
  with ne have S: "0 < ?S" by (rule scores_sum_pos)
  have run: "project_based_allocation calc = Inr ?res"
    using S pos by (simp add: project_based_allocation_def calc)
  have mono: "amount x \<le> amount y"
    if "x \<in> set ?res" "y \<in> set ?res" "score_key x \<le> score_key y" for x y
  proof -
    from that obtain c d where x: "x = project_record b ?S c" and y: "y = project_record b ?S d"
      by auto
    with that(3) have "project_score c \<le> project_score d" by simp
    then have "(of_int (project_score c) :: real) / of_int ?S \<le> of_int (project_score d) / of_int ?S"
      using S by (simp add: divide_right_mono)
    then have "fl (of_int (project_score c) / of_int ?S) * b \<le> fl (of_int (project_score d) / of_int ?S) * b"
      using pos by (intro mult_right_mono fl_mono) simp_all
    then show ?thesis unfolding x y by (simp add: round2_mono fl_mono)
  qed
  have "sum_list (map ?t cs)
          = sum_list (map (\<lambda>c. real_of_int (project_score c)) cs) / of_int ?S * b"
    by (rule sum_list_scaled)
  also have "\<dots> = real_of_int ?S / of_int ?S * b"
    by (simp only: of_int_sum_list_map)
  also have "\<dots> = b" using S by simp
  finally have total: "sum_list (map ?t cs) = b" .
  have each: "\<forall>c\<in>set cs. \<bar>amount (project_record b ?S c) - ?t c\<bar>
      \<le> (1 / 200 + 1 / 200 / 2 ^ 53) + 6 / 2 ^ 53 * ?t c"
  proof
    fix c assume "c \<in> set cs"
    with s1 have "0 \<le> project_score c" by force
    from project_amount_close[OF pos S this] show "\<bar>amount (project_record b ?S c) - ?t c\<bar>
      \<le> (1 / 200 + 1 / 200 / 2 ^ 53) + 6 / 2 ^ 53 * ?t c" by simp
  qed
  from sum_list_err[OF each] have
    "\<bar>sum_list (map (\<lambda>c. amount (project_record b ?S c)) cs) - b\<bar>
       \<le> (1 / 200 + 1 / 200 / 2 ^ 53) * ?n + 6 / 2 ^ 53 * b"
    unfolding total .
  also have "\<dots> = ?n / 200 + (6 * b + ?n / 200) / 2 ^ 53"
    by (simp add: algebra_simps add_divide_distrib)
  also have "\<dots> \<le> ?n / 200 + (b + ?n) / 2 ^ 50"
    using pos by (intro widen_tolerance) simp_all
  finally have tol0: "\<bar>sum_list (map (\<lambda>c. amount (project_record b ?S c)) cs) - b\<bar>
       \<le> ?n / 200 + (b + ?n) / 2 ^ 50" .
  have sm: "sum_list (map amount ?res) = sum_list (map (\<lambda>c. amount (project_record b ?S c)) cs)"
    by (simp add: comp_def del: amount_project_record)
  have tol: "\<bar>sum_list (map amount ?res) - b\<bar> \<le> ?n / 200 + (b + ?n) / 2 ^ 50"
    unfolding sm by (rule tol0)
  have tol2: "\<bar>sum_list (map amount ?res) - b\<bar> \<le> ?n / 100" if small: "b + ?n \<le> 2 ^ 40"
  proof -
    from small have "(b + ?n) / 2 ^ 50 \<le> 2 ^ 40 / 2 ^ 50" by (intro divide_right_mono) simp_all
    then have "(b + ?n) / 2 ^ 50 \<le> 1 / 200" by simp
    moreover have "1 \<le> ?n" using ne by (cases cs) simp_all
    ultimately have "?n / 200 + (b + ?n) / 2 ^ 50 \<le> ?n / 100" by linarith
    with tol show ?thesis by linarith
  qed
  show ?thesis
    using run mono tol tol2 sort_reverse_descending[of score_key ?recs]
      sort_reverse_stable[of score_key _ ?recs]
    by (intro exI[of _ ?res]) (simp only: mset_sort_reverse, blast)
qed

theorem project_based_allocation_spec_witness:
  "AllocationCalculator_init 1000000 [county_a, county_z]
     = Inr \<lparr>budget_amount = 1000000, counties = [county_a, county_z]\<rparr>
   \<and> validate_project_score (project_score county_a) = Inr (project_score county_a)
   \<and> validate_project_score (project_score county_z) = Inr (project_score county_z)
   \<and> (\<exists>allocs. project_based_allocation
           \<lparr>budget_amount = 1000000, counties = [county_a, county_z]\<rparr> = Inr allocs
         \<and> \<bar>sum_list (map amount allocs) - 1000000\<bar>
              \<le> of_nat (length [county_a, county_z]) / 200
                 + (1000000 + of_nat (length [county_a, county_z])) / 2 ^ 50
         \<and> sorted_wrt (\<lambda>x y. score_key y \<le> score_key x) allocs)"
proof -
  have h1: "AllocationCalculator_init 1000000 [county_a, county_z]
     = Inr \<lparr>budget_amount = 1000000, counties = [county_a, county_z]\<rparr>"
    by (simp add: AllocationCalculator_init_def)
  have h2: "validate_project_score (project_score county_a) = Inr (project_score county_a)"
    "validate_project_score (project_score county_z) = Inr (project_score county_z)"
    by (simp_all add: county_a_def county_z_def validate_project_score_def)
  then have h3: "\<forall>c\<in>set [county_a, county_z].
         validate_project_score (project_score c) = Inr (project_score c)"
    by simp
  from project_based_allocation_spec[OF h1 h3] h1 h2 show ?thesis by blast
qed

text \<open>
  C9. \<^verbatim>\<open>project_based_allocation\<close> raises its zero-total error (the
  \<^verbatim>\<open>ValueError\<close> "Total project score cannot be zero") whenever the scores sum to
  zero, and for a non-empty county list whose scores are all valid (1 to 10) the sum is
  not zero and that error is not raised.
\<close>

theorem project_zero_total:
  "(sum_list (map project_score (counties calc)) = 0 \<longrightarrow>
      project_based_allocation calc = Inl (ValueError ''Total project score cannot be zero''))
   \<and> (counties calc \<noteq> [] \<and>
      (\<forall>c\<in>set (counties calc). validate_project_score (project_score c) = Inr (project_score c))
      \<longrightarrow> sum_list (map project_score (counties calc)) \<noteq> 0
        \<and> project_based_allocation calc \<noteq> Inl (ValueError ''Total project score cannot be zero''))"
proof -
  have "0 < sum_list (map project_score (counties calc))"
    if "counties calc \<noteq> []"
      "\<forall>c\<in>set (counties calc). validate_project_score (project_score c) = Inr (project_score c)"
  proof -
    from that(2) have "\<forall>c\<in>set (counties calc). 1 \<le> project_score c"
      by (auto simp: validate_project_score_def split: if_splits)
    with that(1) show ?thesis by (rule scores_sum_pos)
  qed
  then have "counties calc \<noteq> [] \<and>
      (\<forall>c\<in>set (counties calc). validate_project_score (project_score c) = Inr (project_score c))
      \<longrightarrow> sum_list (map project_score (counties calc)) \<noteq> 0"
    by fastforce
  then show ?thesis
    by (simp add: project_based_allocation_def Let_def)
qed

theorem project_zero_total_witness:
  "project_based_allocation \<lparr>budget_amount = 100, counties = [county_a\<lparr>project_score := 0\<rparr>]\<rparr>
     = Inl (ValueError ''Total project score cannot be zero'')
   \<and> project_based_allocation \<lparr>budget_amount = 100, counties = [county_a]\<rparr>
     \<noteq> Inl (ValueError ''Total project score cannot be zero'')"
  using project_zero_total[of "\<lparr>budget_amount = 100, counties = [county_a\<lparr>project_score := 0\<rparr>]\<rparr>"]
    project_zero_total[of "\<lparr>budget_amount = 100, counties = [county_a]\<rparr>"]
  by (simp add: county_a_def validate_project_score_def)

subsection \<open>GDP-per-capita allocation\<close>

lemma min_seq_Min: "gs \<noteq> [] \<Longrightarrow> min_seq gs = Inr (Min (set gs))"
  by (cases gs) (simp_all add: Min.set_eq_fold[symmetric])

lemma max_seq_Max: "gs \<noteq> [] \<Longrightarrow> max_seq gs = Inr (Max (set gs))"
  by (cases gs) (simp_all add: Max.set_eq_fold[symmetric])

lemma fold_fl_nonneg:
  assumes "\<forall>c\<in>set cs. 0 \<le> f c" "0 \<le> a"
  shows "0 \<le> fold (\<lambda>c acc. fl (acc + f c)) cs a"
  using assms
proof (induction cs arbitrary: a)
  case Nil
  then show ?case by simp
next
  case (Cons c cs)
  from Cons.prems have "0 \<le> fl (a + f c)" by (intro fl_nonneg) simp
  with Cons show ?case by simp
qed

lemma fold_fl_pos_acc:
  assumes "\<forall>c\<in>set cs. 0 \<le> f c" "0 < a"
  shows "0 < fold (\<lambda>c acc. fl (acc + f c)) cs a"
  using assms
proof (induction cs arbitrary: a)
  case Nil
  then show ?case by simp
next
  case (Cons c cs)
  from Cons.prems have "0 < fl (a + f c)" by (intro fl_pos) (simp add: add_pos_nonneg)
  with Cons show ?case by simp
qed

lemma fold_fl_pos:
  assumes "\<forall>c\<in>set cs. 0 \<le> f c" "0 \<le> a" "m \<in> set cs" "0 < f m"
  shows "0 < fold (\<lambda>c acc. fl (acc + f c)) cs a"
  using assms
proof (induction cs arbitrary: a)
  case Nil
  then show ?case by simp
next
  case (Cons c cs)
  from Cons.prems have rest: "\<forall>c\<in>set cs. 0 \<le> f c" and c0: "0 \<le> f c" by simp_all
  show ?case
  proof (cases "0 < f c")
    case True
    with Cons.prems(2) have "0 < fl (a + f c)" by (intro fl_pos) (simp add: add_nonneg_pos)
    from fold_fl_pos_acc[OF rest this] show ?thesis by simp
  next
    case False
    with Cons.prems have m: "m \<in> set cs" by auto
    from Cons.prems(2) c0 have "0 \<le> fl (a + f c)" by (intro fl_nonneg) simp
    from Cons.IH[OF rest this m Cons.prems(4)] show ?thesis by simp
  qed
qed

lemma gdp_per_capita_nonneg: "valid_county c \<Longrightarrow> 0 \<le> gdp_per_capita c"
proof -
  assume v: "valid_county c"
  then have p: "0 < population c" and e: "0 \<le> economic_output c"
    by (auto simp: valid_county_def validate_population_def validate_economic_output_def
        split: if_splits)
  from p have "0 < fl (of_int (population c))" by (intro fl_pos) simp
  with e have "0 \<le> economic_output c / fl (of_int (population c))" by simp
  then have "0 \<le> fl (economic_output c / fl (of_int (population c)))" by (rule fl_nonneg)
  with p show ?thesis by (simp add: gdp_per_capita_def)
qed

lemma gdp_per_capita_pos:
  "valid_county c \<Longrightarrow> 0 < economic_output c \<Longrightarrow> 0 < gdp_per_capita c"
proof -
  assume v: "valid_county c" and e: "0 < economic_output c"
  from v have p: "0 < population c"
    by (auto simp: valid_county_def validate_population_def split: if_splits)
  from p have "0 < fl (of_int (population c))" by (intro fl_pos) simp
  with e have "0 < economic_output c / fl (of_int (population c))" by simp
  then have "0 < fl (economic_output c / fl (of_int (population c)))" by (rule fl_pos)
  with p show ?thesis by (simp add: gdp_per_capita_def)
qed

lemma gdp_per_capita_fl [simp]: "fl (gdp_per_capita c) = gdp_per_capita c"
  by (simp add: gdp_per_capita_def)


text \<open>
  Facts about the extremes and the weights of a non-empty list of valid counties.
\<close>

lemma gdp_extremes:
  assumes ne: "cs \<noteq> []" and valid: "\<forall>c\<in>set cs. valid_county c"
  defines "mn \<equiv> Min (set (map gdp_per_capita cs))"
    and "mx \<equiv> Max (set (map gdp_per_capita cs))"
  shows "0 \<le> mn"
    and "\<forall>c\<in>set cs. mn \<le> gdp_per_capita c \<and> gdp_per_capita c \<le> mx"
    and "\<forall>c\<in>set cs. mn \<le> inverse_weight mx mn c"
    and "0 < mx \<longrightarrow> 0 < total_inverse_weight mx mn cs"
    and "\<exists>m\<in>set cs. gdp_per_capita m = mn"
proof -
  let ?G = "set (map gdp_per_capita cs)"
  have fin: "finite ?G" and nonempty: "?G \<noteq> {}" using ne by simp_all
  have "mn \<in> ?G" unfolding mn_def using fin nonempty by (rule Min_in)
  then obtain m where m: "m \<in> set cs" "gdp_per_capita m = mn" by auto
  then show "\<exists>m\<in>set cs. gdp_per_capita m = mn" by blast
  from m valid show mn0: "0 \<le> mn" using gdp_per_capita_nonneg[of m] by auto
  from m have flmn: "fl mn = mn" using gdp_per_capita_fl[of m] by simp
  show bounds: "\<forall>c\<in>set cs. mn \<le> gdp_per_capita c \<and> gdp_per_capita c \<le> mx"
    unfolding mn_def mx_def using fin by (auto intro: Min_le Max_ge)
  show w: "\<forall>c\<in>set cs. mn \<le> inverse_weight mx mn c"
  proof
    fix c assume "c \<in> set cs"
    with bounds have "0 \<le> mx - gdp_per_capita c" by simp
    then have "0 \<le> fl (mx - gdp_per_capita c)" by (rule fl_nonneg)
    then have "fl mn \<le> fl (fl (mx - gdp_per_capita c) + mn)" by (intro fl_mono) simp
    then show "mn \<le> inverse_weight mx mn c" by (simp add: inverse_weight_def flmn)
  qed
  with mn0 have w0: "\<forall>c\<in>set cs. 0 \<le> inverse_weight mx mn c" by force
  show "0 < mx \<longrightarrow> 0 < total_inverse_weight mx mn cs"
  proof
    assume mx: "0 < mx"
    have "0 < inverse_weight mx mn m"
    proof (cases "0 < mn")
      case True
      with w m(1) show ?thesis by force
    next
      case False
      with mn0 have z: "mn = 0" by simp
      from mx have "0 < fl mx" by (rule fl_pos)
      then have "0 < fl (fl mx)" by simp
      then show ?thesis by (simp add: inverse_weight_def m(2) z)
    qed
    from fold_fl_pos[OF w0 _ m(1) this] show "0 < total_inverse_weight mx mn cs"
      by (simp add: total_inverse_weight_def)
  qed
qed


lemma gdp_run:
  assumes "cs \<noteq> []" "0 < b"
    "total_inverse_weight (Max (set (map gdp_per_capita cs))) (Min (set (map gdp_per_capita cs))) cs \<noteq> 0"
  shows "gdp_per_capita_allocation \<lparr>budget_amount = b, counties = cs\<rparr> =
    Inr (sort_reverse amount
      (map (gdp_record b
          (total_inverse_weight (Max (set (map gdp_per_capita cs))) (Min (set (map gdp_per_capita cs))) cs)
          (Max (set (map gdp_per_capita cs))) (Min (set (map gdp_per_capita cs)))) cs))"
  using assms by (simp add: gdp_per_capita_allocation_def min_seq_Min max_seq_Max)


text \<open>
  C1 (as amended). For a calculator built from a positive budget amount and a non-empty
  list of valid counties (population positive, economic output not negative), the
  minimum GDP per capita is not negative and every county's weight
  \<open>max - gdp_per_capita + min\<close> is at least that minimum; the minimum is strictly
  positive when every county has a positive economic output; and when at least one
  county has a positive economic output the sum of the weights is strictly positive and
  the allocation returns a list.
\<close>

theorem gdp_weights_bounded:
  assumes init: "AllocationCalculator_init b cs = Inr calc"
    and valid: "\<forall>c\<in>set cs. valid_county c"
  shows "\<exists>mn mx. min_seq (map gdp_per_capita cs) = Inr mn
      \<and> max_seq (map gdp_per_capita cs) = Inr mx
      \<and> 0 \<le> mn
      \<and> (\<forall>c\<in>set cs. mn \<le> inverse_weight mx mn c)
      \<and> ((\<forall>c\<in>set cs. 0 < economic_output c) \<longrightarrow> 0 < mn)
      \<and> ((\<exists>c\<in>set cs. 0 < economic_output c) \<longrightarrow>
            0 < total_inverse_weight mx mn cs
            \<and> (\<exists>allocs. gdp_per_capita_allocation calc = Inr allocs))"
proof -
  from init have ne: "cs \<noteq> []" and pos: "0 < b"
    and calc: "calc = \<lparr>budget_amount = b, counties = cs\<rparr>"
    by (simp_all add: init_Inr)
  let ?G = "set (map gdp_per_capita cs)"
  let ?mn = "Min ?G" and ?mx = "Max ?G"
  note ex = gdp_extremes[OF ne valid]
  have gne: "map gdp_per_capita cs \<noteq> []" using ne by simp
  have all_pos: "0 < ?mn" if "\<forall>c\<in>set cs. 0 < economic_output c"
  proof -
    have "?mn \<in> ?G" using ne by (intro Min_in) simp_all
    then obtain m where "m \<in> set cs" "gdp_per_capita m = ?mn" by auto
    with that valid gdp_per_capita_pos[of m] show ?thesis by auto
  qed
  have some_pos: "0 < total_inverse_weight ?mx ?mn cs
      \<and> (\<exists>allocs. gdp_per_capita_allocation calc = Inr allocs)"
    if "\<exists>c\<in>set cs. 0 < economic_output c"
  proof -
    from that obtain c where c: "c \<in> set cs" "0 < economic_output c" by auto
    with valid have "0 < gdp_per_capita c" by (simp add: gdp_per_capita_pos)
    also have "\<dots> \<le> ?mx" using ex(2) c(1) by simp
    finally have "0 < ?mx" .
    with ex(4) have tw: "0 < total_inverse_weight ?mx ?mn cs" by simp
    then have "total_inverse_weight ?mx ?mn cs \<noteq> 0" by simp
    from gdp_run[OF ne pos this] tw show ?thesis unfolding calc by blast
  qed
  show ?thesis
    using min_seq_Min[OF gne] max_seq_Max[OF gne] ex(1) ex(3) all_pos some_pos
    by (intro exI[of _ ?mn] exI[of _ ?mx]) blast
qed

theorem gdp_weights_bounded_witness:
  "AllocationCalculator_init 1000 [county_a, county_z]
     = Inr \<lparr>budget_amount = 1000, counties = [county_a, county_z]\<rparr>
   \<and> valid_county county_a \<and> valid_county county_z
   \<and> 0 < economic_output county_a
   \<and> 0 < total_inverse_weight 1000 0 [county_a, county_z]
   \<and> (\<exists>allocs. gdp_per_capita_allocation
          \<lparr>budget_amount = 1000, counties = [county_a, county_z]\<rparr> = Inr allocs)"
proof -
  have h1: "AllocationCalculator_init 1000 [county_a, county_z]
     = Inr \<lparr>budget_amount = 1000, counties = [county_a, county_z]\<rparr>"
    by (simp add: AllocationCalculator_init_def)
  have h2: "\<forall>c\<in>set [county_a, county_z]. valid_county c"
    by (simp add: sample_valid)
  have h3: "0 < economic_output county_a" by (simp add: county_a_def)
  then have h4: "\<exists>c\<in>set [county_a, county_z]. 0 < economic_output c" by simp
  from gdp_weights_bounded[OF h1 h2] h4 obtain mn mx where
    "min_seq (map gdp_per_capita [county_a, county_z]) = Inr mn"
    "max_seq (map gdp_per_capita [county_a, county_z]) = Inr mx"
    "0 < total_inverse_weight mx mn [county_a, county_z]"
    "\<exists>allocs. gdp_per_capita_allocation
          \<lparr>budget_amount = 1000, counties = [county_a, county_z]\<rparr> = Inr allocs"
    by blast
  moreover from this(1,2) have "mn = 0" "mx = 1000" by (simp_all add: sample_gdp)
  ultimately show ?thesis using h1 h3 by (simp add: sample_valid)
qed

text \<open>
  C1 as stated fails: a county with economic output 0 passes the validators, and for the
  list holding only that county the minimum, the weight and the weight sum are all 0, so
  the division by the weight sum raises \<^verbatim>\<open>ZeroDivisionError\<close>.
\<close>

theorem gdp_zero_output_counterexample:
  "valid_county county_z
   \<and> AllocationCalculator_init 1000 [county_z] = Inr \<lparr>budget_amount = 1000, counties = [county_z]\<rparr>
   \<and> min_seq (map gdp_per_capita [county_z]) = Inr 0
   \<and> max_seq (map gdp_per_capita [county_z]) = Inr 0
   \<and> inverse_weight 0 0 county_z = 0
   \<and> total_inverse_weight 0 0 [county_z] = 0
   \<and> gdp_per_capita_allocation \<lparr>budget_amount = 1000, counties = [county_z]\<rparr>
       = Inl ZeroDivisionError"
  by (simp add: sample_valid sample_gdp AllocationCalculator_init_def inverse_weight_def
      total_inverse_weight_def gdp_per_capita_allocation_def)






















subsection \<open>Summary\<close>

lemma dispatch_length:
  assumes "dispatch calc m = Inr allocs"
  shows "length allocs = length (counties calc)"
proof -
  have e: "length allocs = length (counties calc)" if "equal_allocation calc = Inr allocs"
    using that by (auto simp: equal_allocation_def Let_def split: if_splits)
  have g: "length allocs = length (counties calc)" if "gdp_per_capita_allocation calc = Inr allocs"
    using that
    by (auto simp: gdp_per_capita_allocation_def Let_def split: if_splits sum.splits)
  have p: "length allocs = length (counties calc)" if "project_based_allocation calc = Inr allocs"
    using that by (auto simp: project_based_allocation_def Let_def split: if_splits)
  from assms e g p show ?thesis by (simp add: dispatch_def split: if_splits)
qed
























subsection \<open>Comparison of the three methods\<close>

lemma methods_fold:
  "fold (\<lambda>m acc. AList.update m (run_method calc m) acc) method_names []
     = [(''equal'', run_method calc ''equal''),
        (''gdp_per_capita'', run_method calc ''gdp_per_capita''),
        (''project_based'', run_method calc ''project_based'')]"
  by (simp add: method_names_def)

text \<open>
  C7. For a positive budget amount and a non-empty county list,
  \<^verbatim>\<open>compare_allocation_methods\<close> returns a comparison whose \<open>methods\<close> mapping has
  exactly the keys \<open>equal\<close>, \<open>gdp_per_capita\<close> and \<open>project_based\<close>, and each key
  holds that method's summary when the method returns and the error it raised
  otherwise, independently of the other two methods.
\<close>

theorem compare_three_keys:
  assumes init: "AllocationCalculator_init b cs = Inr calc"
  shows "\<exists>cmp. compare_allocation_methods b cs = Inr cmp
      \<and> map fst (methods cmp) = [''equal'', ''gdp_per_capita'', ''project_based'']
      \<and> (\<forall>m\<in>set [''equal'', ''gdp_per_capita'', ''project_based''].
            map_of (methods cmp) m =
              Some (case get_allocation_summary calc m of
                      Inr s \<Rightarrow> Summary s | Inl e \<Rightarrow> Failed e))"
proof -
  have "compare_allocation_methods b cs =
      Inr \<lparr>cmp_budget_amount = b, cmp_num_counties = length cs,
           methods = [(''equal'', run_method calc ''equal''),
                      (''gdp_per_capita'', run_method calc ''gdp_per_capita''),
                      (''project_based'', run_method calc ''project_based'')]\<rparr>"
    using init by (simp add: compare_allocation_methods_def methods_fold)
  then show ?thesis by (simp add: run_method_def)
qed

theorem compare_three_keys_witness:
  "AllocationCalculator_init 1000 [county_z] = Inr \<lparr>budget_amount = 1000, counties = [county_z]\<rparr>
   \<and> (\<exists>cmp s1 s3. compare_allocation_methods 1000 [county_z] = Inr cmp
        \<and> methods cmp = [(''equal'', Summary s1),
                          (''gdp_per_capita'', Failed ZeroDivisionError),
                          (''project_based'', Summary s3)])"
proof -
  let ?calc = "\<lparr>budget_amount = 1000, counties = [county_z]\<rparr>"
  have h: "AllocationCalculator_init 1000 [county_z] = Inr ?calc"
    by (simp add: AllocationCalculator_init_def)
  have g: "get_allocation_summary ?calc ''gdp_per_capita'' = Inl ZeroDivisionError"
    by (simp add: get_allocation_summary_def dispatch_def gdp_per_capita_allocation_def
        sample_gdp total_inverse_weight_def inverse_weight_def)
  have e: "\<exists>s. get_allocation_summary ?calc ''equal'' = Inr s"
    by (simp add: get_allocation_summary_def dispatch_def equal_allocation_def Let_def)
  have p: "\<exists>s. get_allocation_summary ?calc ''project_based'' = Inr s"
    by (simp add: get_allocation_summary_def dispatch_def project_based_allocation_def
        county_z_def Let_def)
  from e p obtain s1 s3 where s: "get_allocation_summary ?calc ''equal'' = Inr s1"
    "get_allocation_summary ?calc ''project_based'' = Inr s3" by blast
  from compare_three_keys[OF h] obtain cmp where
    c: "compare_allocation_methods 1000 [county_z] = Inr cmp"
    "map fst (methods cmp) = [''equal'', ''gdp_per_capita'', ''project_based'']"
    "map_of (methods cmp) ''equal'' = Some (Summary s1)"
    "map_of (methods cmp) ''gdp_per_capita'' = Some (Failed ZeroDivisionError)"
    "map_of (methods cmp) ''project_based'' = Some (Summary s3)"
    using g s by auto
  from c(2) obtain v1 v2 v3 where m: "methods cmp =
      [(''equal'', v1), (''gdp_per_capita'', v2), (''project_based'', v3)]"
    by (auto simp: map_eq_Cons_conv)
  with c(3,4,5) have "v1 = Summary s1" "v2 = Failed ZeroDivisionError" "v3 = Summary s3"
    by simp_all
  with m c(1) h show ?thesis by blast
qed

text \<open>
  C10. \<^verbatim>\<open>compare_allocation_methods\<close> builds the calculator before the loop over the
  methods: with an empty county list or a budget amount that is not positive, the
  routine itself raises the constructor's \<^verbatim>\<open>ValueError\<close> and returns no mapping.
\<close>

theorem compare_invalid_input_raises:
  "(cs = [] \<longrightarrow> compare_allocation_methods b cs
        = Inl (ValueError ''Cannot allocate budget to zero counties''))
   \<and> (cs \<noteq> [] \<and> b \<le> 0 \<longrightarrow> compare_allocation_methods b cs
        = Inl (ValueError ''Budget amount must be greater than zero''))
   \<and> (cs = [] \<or> b \<le> 0 \<longrightarrow> (\<forall>cmp. compare_allocation_methods b cs \<noteq> Inr cmp))"
  by (simp add: compare_allocation_methods_def AllocationCalculator_init_def)

theorem compare_invalid_input_raises_witness:
  "compare_allocation_methods 1000 [] = Inl (ValueError ''Cannot allocate budget to zero counties'')
   \<and> compare_allocation_methods 0 [county_a]
        = Inl (ValueError ''Budget amount must be greater than zero'')
   \<and> compare_allocation_methods (- 5) [county_a]
        = Inl (ValueError ''Budget amount must be greater than zero'')"
  using compare_invalid_input_raises[of "[]" 1000]
    compare_invalid_input_raises[of "[county_a]" 0]
    compare_invalid_input_raises[of "[county_a]" "- 5"]
  by simp

subsection \<open>Budget creation\<close>

lemma make_allocations_Inr:
  "make_allocations bid ds = Inr objs \<Longrightarrow>
     map ao_county_id objs = map county_id ds \<and> map ao_amount objs = map amount ds
     \<and> map ao_budget_id objs = map (\<lambda>_. bid) ds"
proof (induction ds arbitrary: objs)
  case Nil
  then show ?case by simp
next
  case (Cons d ds)
  then show ?case
    by (auto simp: Allocation_new_def Allocation_validate_amount_def
        split: sum.splits if_splits)
qed

lemma insert_allocations_Inr:
  "insert_allocations F k tx objs = Inr (tx', rows) \<Longrightarrow>
     tx' = tx\<lparr>allocations_table := allocations_table tx @ rows\<rparr>
     \<and> map allocation_county_id rows = map ao_county_id objs
     \<and> map allocation_amount rows = map ao_amount objs
     \<and> map allocation_budget_id rows = map ao_budget_id objs
     \<and> (\<forall>j<length objs. \<not> allocation_insert_fails F (k + j))"
proof (induction objs arbitrary: k tx tx' rows)
  case Nil
  then show ?case by simp
next
  case (Cons a objs)
  from Cons.prems have ok: "\<not> allocation_insert_fails F k"
    by (auto split: if_splits)
  let ?row = "\<lparr>allocation_pk = next_pk (map allocation_pk (allocations_table tx)),
                allocation_budget_id = ao_budget_id a,
                allocation_county_id = ao_county_id a,
                allocation_amount = ao_amount a\<rparr>"
  let ?tx1 = "tx\<lparr>allocations_table := allocations_table tx @ [?row]\<rparr>"
  from Cons.prems ok obtain rows' where
    rec: "insert_allocations F (Suc k) ?tx1 objs = Inr (tx', rows')" and rows: "rows = ?row # rows'"
    by (auto simp: Let_def split: sum.splits)
  note ih = Cons.IH[OF rec]
  have "\<forall>j<length (a # objs). \<not> allocation_insert_fails F (k + j)"
  proof (intro allI impI)
    fix j assume "j < length (a # objs)"
    then show "\<not> allocation_insert_fails F (k + j)"
      using ok ih by (cases j) auto
  qed
  with ih rows show ?case by simp
qed

lemma insert_allocations_fault:
  "j < length objs \<Longrightarrow> allocation_insert_fails F (k + j) \<Longrightarrow>
     insert_allocations F k tx objs = Inl StorageError"
proof (induction objs arbitrary: k tx j)
  case Nil
  then show ?case by simp
next
  case (Cons a objs)
  show ?case
  proof (cases j)
    case 0
    with Cons.prems show ?thesis by simp
  next
    case (Suc j')
    with Cons.prems have "j' < length objs" "allocation_insert_fails F (Suc k + j')" by simp_all
    from Cons.IH[OF this] show ?thesis by (simp add: Let_def)
  qed
qed

lemma summary_length:
  assumes "get_allocation_summary calc m = Inr s"
  shows "length (allocations s) = length (counties calc)"
proof -
  from assms obtain allocs where d: "dispatch calc m = Inr allocs" and a: "allocations s = allocs"
    by (auto simp: get_allocation_summary_def Let_def split: sum.splits)
  with dispatch_length[OF d] show ?thesis by simp
qed

lemma make_allocations_ok:
  "\<forall>d\<in>set ds. 0 \<le> amount d \<Longrightarrow> \<exists>objs. make_allocations bid ds = Inr objs"
  by (induction ds) (auto simp: Allocation_new_def Allocation_validate_amount_def)

lemma insert_allocations_ok:
  "\<forall>j<length objs. \<not> allocation_insert_fails F (k + j) \<Longrightarrow>
     \<exists>tx' rows. insert_allocations F k tx objs = Inr (tx', rows)"
proof (induction objs arbitrary: k tx)
  case Nil
  then show ?case by simp
next
  case (Cons a objs)
  from Cons.prems have ok: "\<not> allocation_insert_fails F k" by force
  have "\<forall>j<length objs. \<not> allocation_insert_fails F (Suc k + j)"
  proof (intro allI impI)
    fix j assume "j < length objs"
    then have "Suc j < length (a # objs)" by simp
    with Cons.prems have "\<not> allocation_insert_fails F (k + Suc j)" by blast
    then show "\<not> allocation_insert_fails F (Suc k + j)" by simp
  qed
  from Cons.IH[OF this] obtain tx' rows where
    "insert_allocations F (Suc k)
       (tx\<lparr>allocations_table := allocations_table tx @
          [\<lparr>allocation_pk = next_pk (map allocation_pk (allocations_table tx)),
            allocation_budget_id = ao_budget_id a,
            allocation_county_id = ao_county_id a,
            allocation_amount = ao_amount a\<rparr>]\<rparr>) objs = Inr (tx', rows)"
    by blast
  with ok show ?case by (simp add: Let_def)
qed

lemma Budget_new_Inr:
  "Budget_new n t m = Inr budget \<Longrightarrow>
     bo_name budget = strip n \<and> bo_total_amount budget = t \<and> bo_allocation_method budget = m"
  by (auto simp: Budget_new_def Budget_validate_name_def Budget_validate_total_amount_def
      Budget_validate_allocation_method_def split: sum.splits if_splits)

lemma insert_budget_Inr:
  "insert_budget F db budget = Inr (tx, brow) \<Longrightarrow>
     \<not> budget_insert_fails F
     \<and> tx = db\<lparr>budgets_table := budgets_table db @ [brow]\<rparr>
     \<and> budget_name brow = bo_name budget
     \<and> budget_total_amount brow = bo_total_amount budget
     \<and> budget_allocation_method brow = bo_allocation_method budget"
  by (auto simp: insert_budget_def Let_def split: if_splits)

lemma create_outcome:
  assumes out: "create_budget_with_allocations F db n t m cs = (db', res)"
  shows "((db' = db \<and> (\<exists>e. res = Inl e))
        \<or> (\<exists>calc s brow rows.
              AllocationCalculator_init t cs = Inr calc
            \<and> get_allocation_summary calc m = Inr s
            \<and> db' = db\<lparr>budgets_table := budgets_table db @ [brow],
                        allocations_table := allocations_table db @ rows\<rparr>
            \<and> budget_name brow = strip n
            \<and> budget_total_amount brow = t
            \<and> budget_allocation_method brow = m
            \<and> length rows = length (allocations s)
            \<and> map allocation_county_id rows = map county_id (allocations s)
            \<and> map allocation_amount rows = map amount (allocations s)
            \<and> map allocation_budget_id rows = map (\<lambda>_. budget_pk brow) (allocations s)
            \<and> (res = Inr (brow, rows) \<or> res = Inl StorageError \<and> refresh_fails F)))
      \<and> (budget_insert_fails F \<or> (\<exists>k<length cs. allocation_insert_fails F k) \<or> commit_fails F
            \<longrightarrow> db' = db \<and> (\<exists>e. res = Inl e))
      \<and> ((\<exists>r. res = Inr r) \<longrightarrow> db' \<noteq> db)"
proof (cases "Budget_new n t m")
  case (Inl e)
  with out show ?thesis by (auto simp: create_budget_with_allocations_def)
next
  case b: (Inr budget)
  show ?thesis
  proof (cases "insert_budget F db budget")
    case (Inl e)
    with out b show ?thesis by (auto simp: create_budget_with_allocations_def)
  next
    case (Inr p)
    then obtain tx brow where ib: "insert_budget F db budget = Inr (tx, brow)" by (cases p) auto
    note ibf = insert_budget_Inr[OF ib] and bf = Budget_new_Inr[OF b]
    show ?thesis
    proof (cases "AllocationCalculator_init t cs")
      case (Inl e)
      with out b ib show ?thesis by (auto simp: create_budget_with_allocations_def)
    next
      case c: (Inr calc)
      then have cs: "counties calc = cs" by (auto simp: init_Inr)
      show ?thesis
      proof (cases "get_allocation_summary calc m")
        case (Inl e)
        with out b ib c show ?thesis by (auto simp: create_budget_with_allocations_def)
      next
        case s: (Inr s)
        from summary_length[OF s] cs have len: "length (allocations s) = length cs" by simp
        show ?thesis
        proof (cases "make_allocations (budget_pk brow) (allocations s)")
          case (Inl e)
          with out b ib c s show ?thesis by (auto simp: create_budget_with_allocations_def)
        next
          case mk: (Inr objs)
          note mkf = make_allocations_Inr[OF mk]
          from mkf have lo: "length objs = length cs"
            using len by (metis length_map)
          show ?thesis
          proof (cases "insert_allocations F 0 tx objs")
            case (Inl e)
            with out b ib c s mk show ?thesis by (auto simp: create_budget_with_allocations_def)
          next
            case (Inr q)
            then obtain tx' rows where ia: "insert_allocations F 0 tx objs = Inr (tx', rows)"
              by (cases q) auto
            note iaf = insert_allocations_Inr[OF ia]
            from iaf lo have nofault: "\<not> (\<exists>k<length cs. allocation_insert_fails F k)" by simp
            from iaf mkf have lr: "length rows = length (allocations s)"
              by (metis length_map)
            from iaf ibf have tx': "tx' = db\<lparr>budgets_table := budgets_table db @ [brow],
                        allocations_table := allocations_table db @ rows\<rparr>"
              by simp
            then have neq: "tx' \<noteq> db"
              by (metis database.select_convs(1) database.surjective database.update_convs(1,2)
                  append_self_conv not_Cons_self2)
            from out b ib c s mk ia have r: "(db', res) =
                (if commit_fails F then (db, Inl StorageError)
                 else if refresh_fails F then (tx', Inl StorageError)
                 else (tx', Inr (brow, rows)))"
              by (simp add: create_budget_with_allocations_def)
            show ?thesis
            proof (cases "commit_fails F")
              case True
              with r show ?thesis by simp
            next
              case False
              with r have db': "db' = tx'"
                and res: "res = Inr (brow, rows) \<or> res = Inl StorageError \<and> refresh_fails F"
                by (auto split: if_splits)
              have "\<exists>calc s brow rows.
                  AllocationCalculator_init t cs = Inr calc
                \<and> get_allocation_summary calc m = Inr s
                \<and> db' = db\<lparr>budgets_table := budgets_table db @ [brow],
                        allocations_table := allocations_table db @ rows\<rparr>
                \<and> budget_name brow = strip n
                \<and> budget_total_amount brow = t
                \<and> budget_allocation_method brow = m
                \<and> length rows = length (allocations s)
                \<and> map allocation_county_id rows = map county_id (allocations s)
                \<and> map allocation_amount rows = map amount (allocations s)
                \<and> map allocation_budget_id rows = map (\<lambda>_. budget_pk brow) (allocations s)
                \<and> (res = Inr (brow, rows) \<or> res = Inl StorageError \<and> refresh_fails F)"
                using c s db' tx' ibf bf lr iaf mkf res
                by (intro exI[of _ calc] exI[of _ s] exI[of _ brow] exI[of _ rows]) simp
              moreover have "\<not> budget_insert_fails F" using ibf by simp
              moreover note nofault False
              moreover have "db' \<noteq> db" using db' neq by simp
              ultimately show ?thesis by blast
            qed
          qed
        qed
      qed
    qed
  qed
qed

lemma create_succeeds:
  assumes nf: "\<not> budget_insert_fails F" "\<forall>k<length cs. \<not> allocation_insert_fails F k"
      "\<not> commit_fails F" "\<not> refresh_fails F"
    and b: "Budget_new n t m = Inr budget"
    and c: "AllocationCalculator_init t cs = Inr calc"
    and s: "get_allocation_summary calc m = Inr s"
    and a: "\<forall>d\<in>set (allocations s). 0 \<le> amount d"
  shows "\<exists>db' brow rows. create_budget_with_allocations F db n t m cs = (db', Inr (brow, rows))"
proof -
  from nf(1) obtain tx brow where ib: "insert_budget F db budget = Inr (tx, brow)"
    by (simp add: insert_budget_def Let_def)
  from make_allocations_ok[OF a] obtain objs where
    mk: "make_allocations (budget_pk brow) (allocations s) = Inr objs" ..
  from c have cs: "counties calc = cs" by (auto simp: init_Inr)
  from make_allocations_Inr[OF mk] summary_length[OF s] cs have "length objs = length cs"
    by (metis length_map)
  with nf(2) have "\<forall>j<length objs. \<not> allocation_insert_fails F (0 + j)" by simp
  from insert_allocations_ok[OF this] obtain tx' rows where
    "insert_allocations F 0 tx objs = Inr (tx', rows)" by blast
  with b ib c s mk nf(3,4) show ?thesis
    by (simp add: create_budget_with_allocations_def)
qed

lemma create_computation_failure:
  assumes out: "create_budget_with_allocations F db n t m cs = (db', res)"
    and f: "(\<exists>e. Budget_new n t m = Inl e) \<or> (\<exists>e. AllocationCalculator_init t cs = Inl e)
        \<or> (\<exists>calc e. AllocationCalculator_init t cs = Inr calc
              \<and> get_allocation_summary calc m = Inl e)"
  shows "db' = db \<and> (\<exists>e. res = Inl e)"
  using out f
  by (auto simp: create_budget_with_allocations_def split: sum.splits prod.splits)

text \<open>
  C8 (as amended). Whatever the inputs and whichever storage statements fail, the store
  after \<^verbatim>\<open>create_budget_with_allocations\<close> is either the store before the call, with
  an error propagated to the caller, or the store before the call extended by the budget
  row and by one allocation row per entry of the chosen method's summary (county and
  amount of the entry, the new budget's key). A failure of any step up to and including
  the commit (a validator, the calculation, the budget insert, an allocation insert, the
  commit itself) leaves the store as it was and propagates the error. A call in which no
  step fails returns the budget and its allocations, and a return always comes with the
  extended store. A failure of the refreshes that follow the commit propagates an error
  while the committed rows stay in the store.
\<close>

theorem create_budget_with_allocations_atomic:
  assumes out: "create_budget_with_allocations F db n t m cs = (db', res)"
  shows "((db' = db \<and> (\<exists>e. res = Inl e))
        \<or> (\<exists>calc s brow rows.
              AllocationCalculator_init t cs = Inr calc
            \<and> get_allocation_summary calc m = Inr s
            \<and> db' = db\<lparr>budgets_table := budgets_table db @ [brow],
                        allocations_table := allocations_table db @ rows\<rparr>
            \<and> budget_name brow = strip n
            \<and> budget_total_amount brow = t
            \<and> budget_allocation_method brow = m
            \<and> length rows = length (allocations s)
            \<and> map allocation_county_id rows = map county_id (allocations s)
            \<and> map allocation_amount rows = map amount (allocations s)
            \<and> map allocation_budget_id rows = map (\<lambda>_. budget_pk brow) (allocations s)
            \<and> (res = Inr (brow, rows) \<or> res = Inl StorageError \<and> refresh_fails F)))
      \<and> (budget_insert_fails F \<or> (\<exists>k<length cs. allocation_insert_fails F k) \<or> commit_fails F
            \<longrightarrow> db' = db \<and> (\<exists>e. res = Inl e))
      \<and> ((\<exists>e. Budget_new n t m = Inl e) \<or> (\<exists>e. AllocationCalculator_init t cs = Inl e)
          \<or> (\<exists>calc e. AllocationCalculator_init t cs = Inr calc
                \<and> get_allocation_summary calc m = Inl e)
            \<longrightarrow> db' = db \<and> (\<exists>e. res = Inl e))
      \<and> ((\<exists>r. res = Inr r) \<longrightarrow> db' \<noteq> db)
      \<and> (\<not> budget_insert_fails F \<and> (\<forall>k<length cs. \<not> allocation_insert_fails F k)
          \<and> \<not> commit_fails F \<and> \<not> refresh_fails F
          \<and> (\<exists>budget. Budget_new n t m = Inr budget)
          \<and> (\<exists>calc s. AllocationCalculator_init t cs = Inr calc
                \<and> get_allocation_summary calc m = Inr s
                \<and> (\<forall>d\<in>set (allocations s). 0 \<le> amount d))
            \<longrightarrow> (\<exists>brow rows. res = Inr (brow, rows)))"
proof -
  note o = create_outcome[OF out]
  have c: "(\<exists>e. Budget_new n t m = Inl e) \<or> (\<exists>e. AllocationCalculator_init t cs = Inl e)
          \<or> (\<exists>calc e. AllocationCalculator_init t cs = Inr calc
                \<and> get_allocation_summary calc m = Inl e)
            \<longrightarrow> db' = db \<and> (\<exists>e. res = Inl e)"
    using create_computation_failure[OF out] by blast
  have s: "\<exists>brow rows. res = Inr (brow, rows)"
    if "\<not> budget_insert_fails F" "\<forall>k<length cs. \<not> allocation_insert_fails F k"
      "\<not> commit_fails F" "\<not> refresh_fails F"
      "\<exists>budget. Budget_new n t m = Inr budget"
      "\<exists>calc s. AllocationCalculator_init t cs = Inr calc
                \<and> get_allocation_summary calc m = Inr s
                \<and> (\<forall>d\<in>set (allocations s). 0 \<le> amount d)"
  proof -
    from that(5,6) obtain budget calc s where
      "Budget_new n t m = Inr budget" "AllocationCalculator_init t cs = Inr calc"
      "get_allocation_summary calc m = Inr s" "\<forall>d\<in>set (allocations s). 0 \<le> amount d"
      by blast
    from create_succeeds[OF that(1-4) this, of db] out show ?thesis by auto
  qed
  from o c s show ?thesis by blast
qed

lemma strip_roads: "strip roads = roads"
  by (simp add: strip_def is_space_def roads_def)

lemma sample_budget: "Budget_new roads 1000000 ''equal''
    = Inr \<lparr>bo_name = roads, bo_total_amount = 1000000, bo_allocation_method = ''equal''\<rparr>"
  by (simp add: Budget_new_def Budget_validate_name_def Budget_validate_total_amount_def
      Budget_validate_allocation_method_def strip_roads) (simp add: roads_def)

lemma sample_summary_allocations:
  "\<exists>s. get_allocation_summary \<lparr>budget_amount = 1000000, counties = [county_a, county_b]\<rparr>
          ''equal'' = Inr s
     \<and> allocations s =
         [\<lparr>county_id = 1, county_name = ''Alpha'', amount = 500000, percentage = 50,
              gdp_field = None, score_field = None, method_field = ''equal''\<rparr>,
          \<lparr>county_id = 2, county_name = ''Beta'', amount = 500000, percentage = 50,
              gdp_field = None, score_field = None, method_field = ''equal''\<rparr>]"
  by (simp add: get_allocation_summary_def dispatch_def sample_equal_allocation Let_def)

lemma sample_create:
  assumes "\<not> budget_insert_fails F"
  shows "create_budget_with_allocations F empty_db roads 1000000 ''equal'' [county_a, county_b]
   = (case insert_allocations F 0
          \<lparr>budgets_table =
             [\<lparr>budget_pk = 1, budget_name = roads, budget_total_amount = 1000000,
               budget_allocation_method = ''equal''\<rparr>],
            allocations_table = []\<rparr>
          [\<lparr>ao_budget_id = 1, ao_county_id = 1, ao_amount = 500000\<rparr>,
           \<lparr>ao_budget_id = 1, ao_county_id = 2, ao_amount = 500000\<rparr>] of
        Inl e \<Rightarrow> (empty_db, Inl e)
      | Inr (tx', rows) \<Rightarrow>
          if commit_fails F then (empty_db, Inl StorageError)
          else if refresh_fails F then (tx', Inl StorageError)
          else (tx', Inr (\<lparr>budget_pk = 1, budget_name = roads, budget_total_amount = 1000000,
                    budget_allocation_method = ''equal''\<rparr>, rows)))"
proof -
  from sample_summary_allocations obtain s where
    s: "get_allocation_summary \<lparr>budget_amount = 1000000, counties = [county_a, county_b]\<rparr>
          ''equal'' = Inr s"
    "allocations s =
         [\<lparr>county_id = 1, county_name = ''Alpha'', amount = 500000, percentage = 50,
              gdp_field = None, score_field = None, method_field = ''equal''\<rparr>,
          \<lparr>county_id = 2, county_name = ''Beta'', amount = 500000, percentage = 50,
              gdp_field = None, score_field = None, method_field = ''equal''\<rparr>]"
    by blast
  show ?thesis
    using assms
    by (simp add: create_budget_with_allocations_def sample_budget s
        AllocationCalculator_init_def insert_budget_def empty_db_def next_pk_def
        Allocation_new_def Allocation_validate_amount_def Let_def)
qed

lemma sample_create_ok:
  "create_budget_with_allocations no_faults empty_db roads 1000000 ''equal''
      [county_a, county_b]
   = (\<lparr>budgets_table =
         [\<lparr>budget_pk = 1, budget_name = roads, budget_total_amount = 1000000,
           budget_allocation_method = ''equal''\<rparr>],
        allocations_table =
         [\<lparr>allocation_pk = 1, allocation_budget_id = 1, allocation_county_id = 1,
           allocation_amount = 500000\<rparr>,
          \<lparr>allocation_pk = 2, allocation_budget_id = 1, allocation_county_id = 2,
           allocation_amount = 500000\<rparr>]\<rparr>,
      Inr (\<lparr>budget_pk = 1, budget_name = roads, budget_total_amount = 1000000,
             budget_allocation_method = ''equal''\<rparr>,
           [\<lparr>allocation_pk = 1, allocation_budget_id = 1, allocation_county_id = 1,
             allocation_amount = 500000\<rparr>,
            \<lparr>allocation_pk = 2, allocation_budget_id = 1, allocation_county_id = 2,
             allocation_amount = 500000\<rparr>]))"
  by (subst sample_create) (simp_all add: no_faults_def next_pk_def Let_def)

lemma sample_create_fault:
  "create_budget_with_allocations second_insert_fails empty_db roads 1000000 ''equal''
      [county_a, county_b]
   = (empty_db, Inl StorageError)"
  by (subst sample_create) (simp_all add: second_insert_fails_def next_pk_def Let_def)

theorem create_budget_with_allocations_atomic_witness:
  "create_budget_with_allocations second_insert_fails empty_db roads 1000000 ''equal''
      [county_a, county_b] = (empty_db, Inl StorageError)
   \<and> allocation_insert_fails second_insert_fails 1
   \<and> budgets_table empty_db = [] \<and> allocations_table empty_db = []
   \<and> (\<exists>db' brow rows.
         create_budget_with_allocations no_faults empty_db roads 1000000 ''equal''
           [county_a, county_b] = (db', Inr (brow, rows))
       \<and> db' \<noteq> empty_db \<and> length rows = 2)"
  using create_budget_with_allocations_atomic[OF sample_create_fault]
    create_budget_with_allocations_atomic[OF sample_create_ok]
    sample_create_fault sample_create_ok
  by (simp add: second_insert_fails_def empty_db_def)

text \<open>
  C8 as stated fails: when only the refresh after the commit fails, the caller gets the
  error although the budget row and both allocation rows are in the store.
\<close>

theorem refresh_failure_counterexample:
  "create_budget_with_allocations refresh_fault empty_db roads 1000000 ''equal''
      [county_a, county_b]
   = (\<lparr>budgets_table =
         [\<lparr>budget_pk = 1, budget_name = roads, budget_total_amount = 1000000,
           budget_allocation_method = ''equal''\<rparr>],
        allocations_table =
         [\<lparr>allocation_pk = 1, allocation_budget_id = 1, allocation_county_id = 1,
           allocation_amount = 500000\<rparr>,
          \<lparr>allocation_pk = 2, allocation_budget_id = 1, allocation_county_id = 2,
           allocation_amount = 500000\<rparr>]\<rparr>,
      Inl StorageError)
   \<and> refresh_fails refresh_fault
   \<and> budgets_table empty_db = [] \<and> allocations_table empty_db = []"
  by (subst sample_create) (simp_all add: refresh_fault_def next_pk_def Let_def empty_db_def)

end
